theory Spec2Isabelle
  imports Complex_Main
begin

section \<open>EIA electricity demand: bronze layer ingestion\<close>

text \<open>
  A shallow embedding of \<^verbatim>\<open>eia_bronze_ingestion.py\<close>: the paginated fetch
  \<^verbatim>\<open>fetch_eia_electricity_demand\<close>, the loop over \<^verbatim>\<open>REGIONS\<close> that
  concatenates the per-region results, and the column expressions that build
  \<^verbatim>\<open>df_bronze\<close>.
\<close>

subsection \<open>Python values and exceptions\<close>

text \<open>
  The values that \<^verbatim>\<open>response.json()\<close> can produce. A float is either a finite
  rational (every binary64 value is one) or one of the three special values that
  Python's decoder accepts. A dict is an association list with distinct keys, read at
  the first binding of a key. Strings are byte strings; the model agrees with Python on
  ASCII text.
\<close>

datatype pyfloat = Finite rat | PosInf | NegInf | NaN

datatype pyval =
    PNone
  | PBool bool
  | PInt int
  | PFloat pyfloat
  | PStr string
  | PList "pyval list"
  | PDict "(string \<times> pyval) list"

datatype error =
    ConnectionError
  | JSONDecodeError
  | KeyError string
  | TypeError
  | ValueError
  | OverflowError

type_synonym 'a result = "error + 'a"

text \<open>\<^verbatim>\<open>key in obj\<close> for a string \<^verbatim>\<open>key\<close>: key membership in a dict, element
  equality in a list, substring test in a string; any other operand is not iterable.\<close>

fun is_prefix :: "string \<Rightarrow> string \<Rightarrow> bool" where
  "is_prefix [] ys = True"
| "is_prefix (x # xs) [] = False"
| "is_prefix (x # xs) (y # ys) = (x = y \<and> is_prefix xs ys)"

fun is_substring :: "string \<Rightarrow> string \<Rightarrow> bool" where
  "is_substring xs [] = (xs = [])"
| "is_substring xs (y # ys) = (is_prefix xs (y # ys) \<or> is_substring xs ys)"

fun py_contains :: "pyval \<Rightarrow> string \<Rightarrow> bool result" where
  "py_contains (PDict kvs) key = Inr (key \<in> set (map fst kvs))"
| "py_contains (PList xs) key = Inr (PStr key \<in> set xs)"
| "py_contains (PStr s) key = Inr (is_substring key s)"
| "py_contains _ key = Inl TypeError"

text \<open>\<^verbatim>\<open>obj[key]\<close> for a string \<^verbatim>\<open>key\<close>: only a dict can be subscripted by a
  string.\<close>

fun py_getitem :: "pyval \<Rightarrow> string \<Rightarrow> pyval result" where
  "py_getitem (PDict kvs) key =
     (case map_of kvs key of None \<Rightarrow> Inl (KeyError key) | Some v \<Rightarrow> Inr v)"
| "py_getitem _ key = Inl TypeError"

text \<open>\<^verbatim>\<open>all_data.extend(data)\<close>: a list contributes its elements, a dict its keys,
  a string its characters; anything else is not iterable.\<close>

fun py_extend :: "pyval list \<Rightarrow> pyval \<Rightarrow> pyval list result" where
  "py_extend all_data (PList xs) = Inr (all_data @ xs)"
| "py_extend all_data (PDict kvs) = Inr (all_data @ map (\<lambda>kv. PStr (fst kv)) kvs)"
| "py_extend all_data (PStr s) = Inr (all_data @ map (\<lambda>c. PStr [c]) s)"
| "py_extend all_data _ = Inl TypeError"

text \<open>\<^verbatim>\<open>int(x)\<close>. A string is stripped of surrounding whitespace, may carry one
  sign, and consists of decimal digits that single underscores may separate. The
  whitespace that \<^verbatim>\<open>int\<close> strips from an ASCII string is the tab, the line feed, the
  vertical tab, the form feed, the carriage return and the blank (codes 9 to 13 and 32);
  the separators with codes 28 to 31 are not stripped, and a string that carries one is
  rejected with \<^verbatim>\<open>ValueError\<close>. The limit that recent interpreters put on the number
  of digits of such a string is not modelled, nor are digits and blanks outside ASCII.\<close>

definition is_space :: "char \<Rightarrow> bool" where
  "is_space c = (let n = (of_char c :: nat) in (9 \<le> n \<and> n \<le> 13) \<or> n = 32)"

definition strip :: "string \<Rightarrow> string" where
  "strip s = rev (dropWhile is_space (rev (dropWhile is_space s)))"

definition digit_of :: "char \<Rightarrow> int option" where
  "digit_of c =
     (let n = (of_char c :: nat) in if 48 \<le> n \<and> n \<le> 57 then Some (int n - 48) else None)"

fun parse_digits :: "int \<Rightarrow> string \<Rightarrow> int option" where
  "parse_digits acc [] = Some acc"
| "parse_digits acc [c] =
     (case digit_of c of None \<Rightarrow> None | Some v \<Rightarrow> Some (10 * acc + v))"
| "parse_digits acc (c # d # ds) =
     (if c = CHR ''_''
      then (case digit_of d of None \<Rightarrow> None | Some v \<Rightarrow> parse_digits (10 * acc + v) ds)
      else (case digit_of c of None \<Rightarrow> None | Some v \<Rightarrow> parse_digits (10 * acc + v) (d # ds)))"

definition parse_unsigned :: "string \<Rightarrow> int option" where
  "parse_unsigned s =
     (case s of [] \<Rightarrow> None
      | c # cs \<Rightarrow> (case digit_of c of None \<Rightarrow> None | Some v \<Rightarrow> parse_digits v cs))"

definition int_of_str :: "string \<Rightarrow> int option" where
  "int_of_str s =
     (case strip s of
        [] \<Rightarrow> None
      | c # cs \<Rightarrow>
          if c = CHR ''-'' then map_option uminus (parse_unsigned cs)
          else if c = CHR ''+'' then parse_unsigned cs
          else parse_unsigned (c # cs))"

fun py_int :: "pyval \<Rightarrow> int result" where
  "py_int (PInt i) = Inr i"
| "py_int (PBool b) = Inr (if b then 1 else 0)"
| "py_int (PFloat (Finite q)) = Inr (if 0 \<le> q then \<lfloor>q\<rfloor> else \<lceil>q\<rceil>)"
| "py_int (PFloat NaN) = Inl ValueError"
| "py_int (PFloat PosInf) = Inl OverflowError"
| "py_int (PFloat NegInf) = Inl OverflowError"
| "py_int (PStr s) = (case int_of_str s of None \<Rightarrow> Inl ValueError | Some i \<Rightarrow> Inr i)"
| "py_int PNone = Inl TypeError"
| "py_int (PList xs) = Inl TypeError"
| "py_int (PDict kvs) = Inl TypeError"

subsection \<open>The HTTP interface\<close>

text \<open>
  The query parameters of one request (the dict \<^verbatim>\<open>params\<close>) and the part of a
  response the code reads: the status code and the decoded body, \<open>None\<close> when the body
  is not JSON, in which case \<^verbatim>\<open>response.json()\<close> raises. The server is a step
  function on a state of the outside world: \<^verbatim>\<open>requests.get\<close> either raises a
  transport exception or returns a response, and the world moves on.
\<close>

record request =
  api_key :: string
  frequency :: string
  data_0 :: string
  facets_respondent :: string
  facets_type :: string
  start :: string
  end' :: string
  sort_0_column :: string
  sort_0_direction :: string
  offset :: int
  length' :: int

record response =
  status_code :: int
  json :: "pyval option"

type_synonym 's server = "'s \<Rightarrow> request \<Rightarrow> response result \<times> 's"

subsection \<open>The paginated fetch\<close>

text \<open>One pass through the body of \<^verbatim>\<open>while True\<close>: it leaves the loop with the
  accumulated records, raises, or goes round again with the offset advanced. The
  calls of \<^verbatim>\<open>print\<close> write progress messages and have no part in the result; they
  are left out. \<open>page_step\<close> is the part of the body after \<^verbatim>\<open>requests.get\<close> has
  returned a response.\<close>

datatype step = Break "pyval list" | Raise error | Continue request "pyval list"

definition page_step :: "request \<Rightarrow> pyval list \<Rightarrow> response \<Rightarrow> step" where
  "page_step params all_data resp =
     (if status_code resp \<noteq> 200 then Break all_data
      else case json resp of
        None \<Rightarrow> Raise JSONDecodeError
      | Some json_data \<Rightarrow>
         (case py_contains json_data ''response'' of
            Inl e \<Rightarrow> Raise e
          | Inr False \<Rightarrow> Break all_data
          | Inr True \<Rightarrow>
             (case py_getitem json_data ''response'' of
                Inl e \<Rightarrow> Raise e
              | Inr r \<Rightarrow>
                 (case py_contains r ''data'' of
                    Inl e \<Rightarrow> Raise e
                  | Inr False \<Rightarrow> Break all_data
                  | Inr True \<Rightarrow>
                     (case py_getitem r ''data'' of
                        Inl e \<Rightarrow> Raise e
                      | Inr data \<Rightarrow>
                         (case py_extend all_data data of
                            Inl e \<Rightarrow> Raise e
                          | Inr all_data' \<Rightarrow>
                             (case py_getitem r ''total'' of
                                Inl e \<Rightarrow> Raise e
                              | Inr t \<Rightarrow>
                                 (case py_int t of
                                    Inl e \<Rightarrow> Raise e
                                  | Inr total' \<Rightarrow>
                                      if int (length all_data') \<ge> total'
                                      then Break all_data'
                                      else Continue (params\<lparr>offset := offset params + 5000\<rparr>)
                                             all_data'))))))))"

definition fetch_body :: "'s server \<Rightarrow> request \<Rightarrow> pyval list \<Rightarrow> 's \<Rightarrow> step \<times> 's" where
  "fetch_body srv params all_data s =
     (case srv s params of
        (Inl e, s') \<Rightarrow> (Raise e, s')
      | (Inr resp, s') \<Rightarrow> (page_step params all_data resp, s'))"

text \<open>The loop itself. It has no bound of its own, so it is a partial function: the
  value \<open>None\<close> stands for a loop that never leaves.\<close>

partial_function (option) fetch_loop ::
    "'s server \<Rightarrow> request \<Rightarrow> pyval list \<Rightarrow> 's \<Rightarrow> (pyval list result \<times> 's) option" where
  "fetch_loop srv params all_data s =
     (case fetch_body srv params all_data s of
        (Break d, s') \<Rightarrow> Some (Inr d, s')
      | (Raise e, s') \<Rightarrow> Some (Inl e, s')
      | (Continue params' d, s') \<Rightarrow> fetch_loop srv params' d s')"

definition initial_params :: "string \<Rightarrow> string \<Rightarrow> string \<Rightarrow> string \<Rightarrow> request" where
  "initial_params key region start_date end_date =
     \<lparr>api_key = key, frequency = ''daily'', data_0 = ''value'',
      facets_respondent = region, facets_type = ''D'',
      start = start_date, end' = end_date,
      sort_0_column = ''period'', sort_0_direction = ''asc'',
      offset = 0, length' = 5000\<rparr>"

definition fetch_eia_electricity_demand ::
    "'s server \<Rightarrow> string \<Rightarrow> string \<Rightarrow> string \<Rightarrow> string \<Rightarrow> 's
       \<Rightarrow> (pyval list result \<times> 's) option" where
  "fetch_eia_electricity_demand srv key region start_date end_date s =
     fetch_loop srv (initial_params key region start_date end_date) [] s"

subsection \<open>Ingesting all regions\<close>

definition REGIONS :: "string list" where
  "REGIONS = [''PJM'', ''CISO'', ''MISO'', ''ERCO'', ''SWPP'', ''NYIS'', ''ISNE'',
              ''BPAT'', ''FPL'', ''TVA'']"

definition START_DATE :: string where
  "START_DATE = ''2020-01-01''"

text \<open>The \<^verbatim>\<open>for region in REGIONS\<close> loop: each region's records are appended to
  \<^verbatim>\<open>all_region_data\<close>; an exception raised by a fetch ends the run.\<close>

fun ingest_regions ::
    "'s server \<Rightarrow> string \<Rightarrow> string \<Rightarrow> string \<Rightarrow> string list \<Rightarrow> pyval list \<Rightarrow> 's
       \<Rightarrow> (pyval list result \<times> 's) option" where
  "ingest_regions srv key start_date end_date [] all_region_data s =
     Some (Inr all_region_data, s)"
| "ingest_regions srv key start_date end_date (region # regions) all_region_data s =
     (case fetch_eia_electricity_demand srv key region start_date end_date s of
        None \<Rightarrow> None
      | Some (Inl e, s') \<Rightarrow> Some (Inl e, s')
      | Some (Inr region_data, s') \<Rightarrow>
          ingest_regions srv key start_date end_date regions
            (all_region_data @ region_data) s')"

text \<open>The run of the notebook up to the creation of the DataFrame: the regions of
  \<^verbatim>\<open>REGIONS\<close> from \<^verbatim>\<open>START_DATE\<close> to the day of the run, with the key read from the
  secret store.\<close>

definition all_region_data ::
    "'s server \<Rightarrow> string \<Rightarrow> string \<Rightarrow> 's \<Rightarrow> (pyval list result \<times> 's) option" where
  "all_region_data srv EIA_API_KEY END_DATE s =
     ingest_regions srv EIA_API_KEY START_DATE END_DATE REGIONS [] s"

subsection \<open>Pages, servers and loop states used to state the properties\<close>

text \<open>A well-formed page: status 200 and a JSON object whose \<^verbatim>\<open>response\<close> member is an
  object with a list under \<^verbatim>\<open>data\<close> and, under \<^verbatim>\<open>total\<close>, a value that
  \<^verbatim>\<open>int\<close> accepts. \<open>page_of\<close> gives its records and its total.\<close>

definition page_of :: "response \<Rightarrow> (pyval list \<times> int) option" where
  "page_of resp =
     (if status_code resp \<noteq> 200 then None
      else case json resp of
        Some (PDict body) \<Rightarrow>
          (case map_of body ''response'' of
             Some (PDict r) \<Rightarrow>
               (case (map_of r ''data'', map_of r ''total'') of
                  (Some (PList recs), Some t) \<Rightarrow>
                    (case py_int t of Inr n \<Rightarrow> Some (recs, n) | Inl e \<Rightarrow> None)
                | _ \<Rightarrow> None)
           | _ \<Rightarrow> None)
      | _ \<Rightarrow> None)"

definition page_body :: "pyval list \<Rightarrow> pyval \<Rightarrow> pyval" where
  "page_body recs t = PDict [(''response'', PDict [(''data'', PList recs), (''total'', t)])]"

definition ok_response :: "pyval list \<Rightarrow> pyval \<Rightarrow> response" where
  "ok_response recs t = \<lparr>status_code = 200, json = Some (page_body recs t)\<rparr>"

text \<open>A server that answers every request with the same response; a server that
  serves a fixed table of records by offset and length and reports the size of the
  table as the total; and a wrapper that keeps a log of the requests a server gets.\<close>

definition const_server :: "response \<Rightarrow> unit server" where
  "const_server resp = (\<lambda>s req. (Inr resp, s))"

definition table_server :: "pyval list \<Rightarrow> unit server" where
  "table_server recs =
     (\<lambda>s req. (Inr (ok_response (take (nat (length' req)) (drop (nat (offset req)) recs))
                       (PInt (int (length recs)))), s))"

definition logged :: "'s server \<Rightarrow> ('s \<times> request list) server" where
  "logged srv = (\<lambda>(s, reqs) req. case srv s req of (r, s') \<Rightarrow> (r, (s', reqs @ [req])))"

text \<open>The state at the head of the loop after \<open>k\<close> passes that all went round again,
  if the loop gets that far.\<close>

fun loop_state ::
    "'s server \<Rightarrow> nat \<Rightarrow> request \<Rightarrow> pyval list \<Rightarrow> 's \<Rightarrow> (request \<times> pyval list \<times> 's) option" where
  "loop_state srv 0 params all_data s = Some (params, all_data, s)"
| "loop_state srv (Suc k) params all_data s =
     (case fetch_body srv params all_data s of
        (Continue params' d, s') \<Rightarrow> loop_state srv k params' d s'
      | _ \<Rightarrow> None)"

text \<open>At each loop head that a fetch started with \<open>params\<close> in state \<open>s\<close> reaches,
  a pass that goes round again has added at least one record to the accumulated ones
  and has left fewer than \<open>T\<close> of them. For well-formed pages: a page that leaves the
  count short of the total it reports is not empty, and the count it leaves is under
  \<open>T\<close>, as it is whenever the totals reported are at most \<open>T\<close>. Nothing is asked of a
  pass that leaves the loop, nor of the answers to requests that the fetch does not
  make.\<close>

definition served_pages_progress :: "int \<Rightarrow> 's server \<Rightarrow> request \<Rightarrow> 's \<Rightarrow> bool" where
  "served_pages_progress T srv params s =
     (\<forall>k p d s1. loop_state srv k params [] s = Some (p, d, s1) \<longrightarrow>
        (case fetch_body srv p d s1 of
           (Continue p' d', s2) \<Rightarrow> length d < length d' \<and> int (length d') < T
         | _ \<Rightarrow> True))"

text \<open>The answer to a request does not depend on the state of the server.\<close>

definition state_independent :: "'s server \<Rightarrow> bool" where
  "state_independent srv = (\<forall>s t req. fst (srv s req) = fst (srv t req))"

text \<open>A server that replays a script of answers, one per request, and fails with a
  transport error once the script is used up; the state is what is left of the script.\<close>

definition scripted :: "(response result) list server" where
  "scripted = (\<lambda>script req. case script of
                 [] \<Rightarrow> (Inl ConnectionError, [])
               | r # rest \<Rightarrow> (r, rest))"

text \<open>Each of the first \<open>k\<close> pages that a fetch started with \<open>params\<close> in state
  \<open>s\<close> is served is a well-formed page of exactly 5000 records. Nothing is asked of
  the pages after them, nor of the answers to requests that the fetch does not make.\<close>

definition full_pages_served :: "'s server \<Rightarrow> nat \<Rightarrow> request \<Rightarrow> 's \<Rightarrow> bool" where
  "full_pages_served srv k params s =
     (\<forall>j<k. case loop_state srv j params [] s of
              None \<Rightarrow> True
            | Some (p, d, s1) \<Rightarrow>
               (case fst (srv s1 p) of
                  Inl e \<Rightarrow> True
                | Inr resp \<Rightarrow>
                   (case page_of resp of None \<Rightarrow> False
                    | Some (recs, n) \<Rightarrow> length recs = 5000)))"

section \<open>The bronze DataFrame\<close>

subsection \<open>Rows before and after\<close>

text \<open>
  A row of \<^verbatim>\<open>df\<close>, the DataFrame created with the seven-column schema of nullable
  strings, and a row of \<^verbatim>\<open>df_bronze\<close>, with the nine columns that \<^verbatim>\<open>select\<close> keeps.
  How \<^verbatim>\<open>spark.createDataFrame\<close> turns the fetched records into rows is Spark's
  business and is not modelled: \<^verbatim>\<open>df\<close> is taken as given.
  The columns \<^verbatim>\<open>type\<close> and \<^verbatim>\<open>value\<close> carry a prime, \<^verbatim>\<open>_ingested_at\<close> and
  \<^verbatim>\<open>_source\<close> lose their underscore. The type of a double and of a timestamp are
  left open.
\<close>

record df_row =
  period :: "string option"
  respondent :: "string option"
  respondent_name :: "string option"
  type' :: "string option"
  type_name :: "string option"
  value' :: "string option"
  value_units :: "string option"

datatype calendar_date = Date int nat nat

record ('d, 't) bronze_row =
  date :: "calendar_date option"
  region_code :: "string option"
  region_name :: "string option"
  data_type :: "string option"
  data_type_name :: "string option"
  demand_mwh :: "'d option"
  units :: "string option"
  ingested_at :: 't
  source :: string

subsection \<open>Column expressions\<close>

text \<open>
  The three Spark functions that parse text are not code of the notebook; the column
  expressions take them as a parameter: \<^verbatim>\<open>F.to_date(c, fmt)\<close>, \<^verbatim>\<open>F.to_date(c)\<close> and
  \<^verbatim>\<open>c.cast("double")\<close>, each on a string that is not null and each giving null
  for a string it cannot parse. What the notebook itself fixes is written out: a null
  input gives a null output, \<^verbatim>\<open>F.length\<close> counts the characters, a comparison with
  null is null, and \<^verbatim>\<open>when\<close> \<open>\<dots>\<close> \<^verbatim>\<open>otherwise\<close> takes the first branch whose
  condition is true.
\<close>

record 'd spark =
  to_date_fmt :: "string \<Rightarrow> string \<Rightarrow> calendar_date option"
  to_date :: "string \<Rightarrow> calendar_date option"
  cast_double :: "string \<Rightarrow> 'd option"

definition null_safe :: "(string \<Rightarrow> 'a option) \<Rightarrow> string option \<Rightarrow> 'a option" where
  "null_safe f s = (case s of None \<Rightarrow> None | Some x \<Rightarrow> f x)"

definition sql_length :: "string option \<Rightarrow> int option" where
  "sql_length s = map_option (\<lambda>x. int (length x)) s"

definition sql_eq :: "int option \<Rightarrow> int \<Rightarrow> bool option" where
  "sql_eq a k = map_option (\<lambda>n. n = k) a"

fun case_when :: "(bool option \<times> 'a option) list \<Rightarrow> 'a option \<Rightarrow> 'a option" where
  "case_when [] otherwise = otherwise"
| "case_when ((c, v) # branches) otherwise =
     (if c = Some True then v else case_when branches otherwise)"

definition date_col :: "'d spark \<Rightarrow> df_row \<Rightarrow> calendar_date option" where
  "date_col lib r =
     case_when
       [(sql_eq (sql_length (period r)) 8,
           null_safe (to_date_fmt lib ''yyyyMMdd'') (period r)),
        (sql_eq (sql_length (period r)) 10,
           null_safe (to_date_fmt lib ''yyyy-MM-dd'') (period r))]
       (null_safe (to_date lib) (period r))"

definition demand_mwh_col :: "'d spark \<Rightarrow> df_row \<Rightarrow> 'd option" where
  "demand_mwh_col lib r = null_safe (cast_double lib) (value' r)"

text \<open>One row of \<^verbatim>\<open>df_bronze\<close>: the two computed columns, the five renamed ones and
  the two audit columns; \<open>now\<close> is the value of \<^verbatim>\<open>F.current_timestamp()\<close>, the same
  for every row of the query.\<close>

definition bronze_of :: "'d spark \<Rightarrow> 't \<Rightarrow> df_row \<Rightarrow> ('d, 't) bronze_row" where
  "bronze_of lib now r =
     \<lparr>date = date_col lib r,
      region_code = respondent r,
      region_name = respondent_name r,
      data_type = type' r,
      data_type_name = type_name r,
      demand_mwh = demand_mwh_col lib r,
      units = value_units r,
      ingested_at = now,
      source = ''eia_api''\<rparr>"

definition df_bronze :: "'d spark \<Rightarrow> 't \<Rightarrow> df_row list \<Rightarrow> ('d, 't) bronze_row list" where
  "df_bronze lib now df = map (bronze_of lib now) df"

subsection \<open>A reference for the parsing functions\<close>

text \<open>
  Modelled from the spec: Spark's \<^verbatim>\<open>to_date\<close> and \<^verbatim>\<open>cast("double")\<close>, which decide
  what a period or a value parses to, are not in the repository. The spec describes
  them as an 8-character compact form (YYYYMMDD), a 10-character hyphenated form
  (YYYY-MM-DD), a permissive fallback, and a float parser, each yielding null for a text
  it cannot parse and never raising. The reference below follows these words: the two
  forms take exactly the digits of the pattern and give a date of the calendar, the
  fallback takes the hyphenated form with surrounding blanks, and a number is a plain
  decimal numeral (blanks, a sign, digits, a point, digits). A double is represented by
  the rational the numeral denotes; its rounding to binary64 is not modelled.
\<close>

fun read_digits :: "nat \<Rightarrow> nat \<Rightarrow> string \<Rightarrow> (nat \<times> string) option" where
  "read_digits 0 acc s = Some (acc, s)"
| "read_digits (Suc n) acc [] = None"
| "read_digits (Suc n) acc (c # cs) =
     (case digit_of c of None \<Rightarrow> None | Some v \<Rightarrow> read_digits n (10 * acc + nat v) cs)"

definition expect :: "char \<Rightarrow> string \<Rightarrow> string option" where
  "expect c s = (case s of [] \<Rightarrow> None | x # xs \<Rightarrow> if x = c then Some xs else None)"

definition leap_year :: "int \<Rightarrow> bool" where
  "leap_year y = (y mod 4 = 0 \<and> (y mod 400 = 0 \<or> y mod 100 \<noteq> 0))"

definition days_in_month :: "int \<Rightarrow> nat \<Rightarrow> nat" where
  "days_in_month y m =
     (if m = 2 then (if leap_year y then 29 else 28)
      else if m = 4 \<or> m = 6 \<or> m = 9 \<or> m = 11 then 30 else 31)"

definition make_date :: "nat \<Rightarrow> nat \<Rightarrow> nat \<Rightarrow> calendar_date option" where
  "make_date y m d =
     (if 1 \<le> m \<and> m \<le> 12 \<and> 1 \<le> d \<and> d \<le> days_in_month (int y) m
      then Some (Date (int y) m d) else None)"

text \<open>Modelled from the spec: the 8-character compact form YYYYMMDD, which Spark's
  \<^verbatim>\<open>to_date\<close> (not in the repository) parses under the pattern \<^verbatim>\<open>yyyyMMdd\<close>.\<close>

definition parse_compact :: "string \<Rightarrow> calendar_date option" where
  "parse_compact s =
     (case read_digits 4 0 s of None \<Rightarrow> None
      | Some (y, s1) \<Rightarrow>
         (case read_digits 2 0 s1 of None \<Rightarrow> None
          | Some (m, s2) \<Rightarrow>
             (case read_digits 2 0 s2 of None \<Rightarrow> None
              | Some (d, s3) \<Rightarrow> if s3 = [] then make_date y m d else None)))"

text \<open>Modelled from the spec: the 10-character hyphenated form YYYY-MM-DD, which Spark's
  \<^verbatim>\<open>to_date\<close> (not in the repository) parses under the pattern \<^verbatim>\<open>yyyy-MM-dd\<close>.\<close>

definition parse_hyphenated :: "string \<Rightarrow> calendar_date option" where
  "parse_hyphenated s =
     (case read_digits 4 0 s of None \<Rightarrow> None
      | Some (y, s1) \<Rightarrow>
         (case expect CHR ''-'' s1 of None \<Rightarrow> None
          | Some s2 \<Rightarrow>
             (case read_digits 2 0 s2 of None \<Rightarrow> None
              | Some (m, s3) \<Rightarrow>
                 (case expect CHR ''-'' s3 of None \<Rightarrow> None
                  | Some s4 \<Rightarrow>
                     (case read_digits 2 0 s4 of None \<Rightarrow> None
                      | Some (d, s5) \<Rightarrow> if s5 = [] then make_date y m d else None)))))"

fun all_digits :: "nat \<Rightarrow> string \<Rightarrow> nat option" where
  "all_digits acc [] = Some acc"
| "all_digits acc (c # cs) =
     (case digit_of c of None \<Rightarrow> None | Some v \<Rightarrow> all_digits (10 * acc + nat v) cs)"

text \<open>The parts of a numeral: whether it is negative, the digits before the point and
  the digits after it.\<close>

definition unsigned_part :: "string \<Rightarrow> string" where
  "unsigned_part s =
     (let t = strip s
      in if t \<noteq> [] \<and> (hd t = CHR ''-'' \<or> hd t = CHR ''+'') then tl t else t)"

definition is_negative :: "string \<Rightarrow> bool" where
  "is_negative s = (strip s \<noteq> [] \<and> hd (strip s) = CHR ''-'')"

definition integer_part :: "string \<Rightarrow> string" where
  "integer_part s = takeWhile (\<lambda>c. c \<noteq> CHR ''.'') (unsigned_part s)"

definition fraction_part :: "string \<Rightarrow> string" where
  "fraction_part s =
     (let rest = dropWhile (\<lambda>c. c \<noteq> CHR ''.'') (unsigned_part s)
      in if rest = [] then [] else tl rest)"

text \<open>Modelled from the spec: the parse of a value into a float, null for a
  non-numeric value, which is Spark's \<^verbatim>\<open>cast("double")\<close> (not in the repository).\<close>

definition parse_decimal :: "string \<Rightarrow> rat option" where
  "parse_decimal s =
     (if integer_part s = [] \<and> fraction_part s = [] then None
      else case (all_digits 0 (integer_part s), all_digits 0 (fraction_part s)) of
             (Some i, Some f) \<Rightarrow>
               Some ((if is_negative s then -1 else 1) *
                     (of_nat i + of_nat f / of_nat (10 ^ length (fraction_part s))))
           | _ \<Rightarrow> None)"

text \<open>Modelled from the spec: the three parsing functions of Spark (not in the
  repository) that the column expressions call, put together from the parsers above;
  the permissive fallback is the hyphenated form with blanks around it.\<close>

definition spark_ref :: "rat spark" where
  "spark_ref =
     \<lparr>to_date_fmt = (\<lambda>fmt. if fmt = ''yyyyMMdd'' then parse_compact
                           else if fmt = ''yyyy-MM-dd'' then parse_hyphenated
                           else (\<lambda>s. None)),
      to_date = (\<lambda>s. parse_hyphenated (strip s)),
      cast_double = parse_decimal\<rparr>"

section \<open>Properties of the fetch\<close>

subsection \<open>Auxiliary facts\<close>

lemma map_of_Some_in_keys: "map_of kvs k = Some v \<Longrightarrow> k \<in> fst ` set kvs"
  by (metis map_of_eq_None_iff option.distinct(1))

lemma page_step_page_of:
  assumes "page_of resp = Some (recs, n)"
  shows "page_step params all_data resp =
     (if n \<le> int (length all_data + length recs) then Break (all_data @ recs)
      else Continue (params\<lparr>offset := offset params + 5000\<rparr>) (all_data @ recs))"
proof -
  from assms obtain body r t where
    st: "status_code resp = 200" and j: "json resp = Some (PDict body)"
    and r: "map_of body ''response'' = Some (PDict r)"
    and d: "map_of r ''data'' = Some (PList recs)"
    and t: "map_of r ''total'' = Some t" and n: "py_int t = Inr n"
    by (auto simp: page_of_def split: if_splits option.splits pyval.splits sum.splits)
  have k1: "''response'' \<in> fst ` set body" using r by (rule map_of_Some_in_keys)
  have k2: "''data'' \<in> fst ` set r" using d by (rule map_of_Some_in_keys)
  show ?thesis
    using k1 k2 by (simp add: page_step_def st j r d t n)
qed

lemma page_of_ok_response:
  "py_int t = Inr n \<Longrightarrow> page_of (ok_response recs t) = Some (recs, n)"
  by (simp add: page_of_def ok_response_def page_body_def)

text \<open>A loop whose every pass goes round again, under an invariant of the loop
  state, never returns.\<close>

lemma fetch_loop_diverges_aux:
  assumes step: "\<And>p d s. I p d s \<Longrightarrow>
            \<exists>p' d' s'. fetch_body srv0 p d s = (Continue p' d', s') \<and> I p' d' s'"
    and ret: "fetch_loop srv params all_data s = Some y"
  shows "srv = srv0 \<and> I params all_data s \<longrightarrow> False"
proof (rule fetch_loop.raw_induct
    [where P = "\<lambda>srv p d s y. srv = srv0 \<and> I p d s \<longrightarrow> False", OF _ ret])
  fix loop :: "'a server \<Rightarrow> request \<Rightarrow> pyval list \<Rightarrow> 'a \<Rightarrow> (pyval list result \<times> 'a) option"
  fix srv params all_data s y
  assume ih: "\<And>srv p d s y. loop srv p d s = Some y \<Longrightarrow> srv = srv0 \<and> I p d s \<longrightarrow> False"
    and body: "(case fetch_body srv params all_data s of
        (Break d, s') \<Rightarrow> Some (Inr d, s')
      | (Raise e, s') \<Rightarrow> Some (Inl e, s')
      | (Continue params' d, s') \<Rightarrow> loop srv params' d s') = Some y"
  show "srv = srv0 \<and> I params all_data s \<longrightarrow> False"
  proof
    assume a: "srv = srv0 \<and> I params all_data s"
    then obtain p' d' s' where
      b: "fetch_body srv params all_data s = (Continue p' d', s')" and i: "I p' d' s'"
      using step by blast
    from body b have "loop srv p' d' s' = Some y" by simp
    from ih[OF this] a i show False by simp
  qed
qed

lemma fetch_loop_diverges:
  assumes "I params all_data s"
    and "\<And>p d s. I p d s \<Longrightarrow>
            \<exists>p' d' s'. fetch_body srv p d s = (Continue p' d', s') \<and> I p' d' s'"
  shows "fetch_loop srv params all_data s = None"
proof (cases "fetch_loop srv params all_data s")
  case None then show ?thesis .
next
  case (Some y)
  from fetch_loop_diverges_aux[of I srv, OF assms(2) Some] assms(1) show ?thesis by simp
qed

lemma fetch_loop_Break:
  "fetch_body srv params all_data s = (Break d, s') \<Longrightarrow>
     fetch_loop srv params all_data s = Some (Inr d, s')"
  by (subst fetch_loop.simps) simp

lemma fetch_loop_Raise:
  "fetch_body srv params all_data s = (Raise e, s') \<Longrightarrow>
     fetch_loop srv params all_data s = Some (Inl e, s')"
  by (subst fetch_loop.simps) simp

lemma fetch_loop_Continue:
  "fetch_body srv params all_data s = (Continue params' d, s') \<Longrightarrow>
     fetch_loop srv params all_data s = fetch_loop srv params' d s'"
  by (subst fetch_loop.simps) simp

lemma page_step_Continue_params:
  "page_step params all_data resp = Continue p' d' \<Longrightarrow>
     p' = params\<lparr>offset := offset params + 5000\<rparr>"
  unfolding page_step_def
  by (simp split: if_splits option.splits sum.splits bool.splits)


lemma fetch_body_Continue_params:
  "fetch_body srv params all_data s = (Continue p' d', s') \<Longrightarrow>
     p' = params\<lparr>offset := offset params + 5000\<rparr>"
  by (auto simp: fetch_body_def dest: page_step_Continue_params split: prod.splits sum.splits)

lemma fetch_loop_loop_state:
  "loop_state srv k params all_data s = Some (p, d, s') \<Longrightarrow>
     fetch_loop srv params all_data s = fetch_loop srv p d s'"
proof (induction k arbitrary: params all_data s)
  case 0
  then show ?case by simp
next
  case (Suc k)
  from Suc.prems obtain p1 d1 s1 where
    b: "fetch_body srv params all_data s = (Continue p1 d1, s1)"
    and r: "loop_state srv k p1 d1 s1 = Some (p, d, s')"
    by (auto split: prod.splits step.splits)
  from Suc.IH[OF r] fetch_loop_Continue[OF b] show ?case by simp
qed

lemma loop_state_offset:
  "loop_state srv k params all_data s = Some (p, d, s') \<Longrightarrow>
     p = params\<lparr>offset := offset params + 5000 * int k\<rparr>"
proof (induction k arbitrary: params all_data s)
  case 0
  then show ?case by simp
next
  case (Suc k)
  from Suc.prems obtain p1 d1 s1 where
    b: "fetch_body srv params all_data s = (Continue p1 d1, s1)"
    and r: "loop_state srv k p1 d1 s1 = Some (p, d, s')"
    by (auto split: prod.splits step.splits)
  have "p1 = params\<lparr>offset := offset params + 5000\<rparr>"
    using b by (rule fetch_body_Continue_params)
  with Suc.IH[OF r] show ?case by (simp add: algebra_simps)
qed

lemma fetch_body_logged:
  "fetch_body (logged srv) params all_data (s, reqs) =
     (case fetch_body srv params all_data s of (st, s') \<Rightarrow> (st, (s', reqs @ [params])))"
  by (simp add: fetch_body_def logged_def split: prod.splits sum.splits)

lemma loop_state_Suc_end:
  "loop_state srv k params all_data s = Some (p, d, s1) \<Longrightarrow>
   fetch_body srv p d s1 = (Continue p' d', s2) \<Longrightarrow>
     loop_state srv (Suc k) params all_data s = Some (p', d', s2)"
proof (induction k arbitrary: params all_data s)
  case 0
  then show ?case by simp
next
  case (Suc k)
  from Suc.prems(1) obtain p1 d1 t1 where
    b: "fetch_body srv params all_data s = (Continue p1 d1, t1)"
    and r: "loop_state srv k p1 d1 t1 = Some (p, d, s1)"
    by (auto split: prod.splits step.splits)
  from Suc.IH[OF r Suc.prems(2)] b show ?case by simp
qed

lemma served_pages_progressD:
  assumes "served_pages_progress T srv params s"
    and "loop_state srv k params [] s = Some (p, d, s1)"
    and "fetch_body srv p d s1 = (Continue p' d', s2)"
  shows "length d < length d' \<and> int (length d') < T"
  using assms(1)[unfolded served_pages_progress_def, rule_format, OF assms(2)] assms(3)
  by simp

text \<open>Termination from any loop head that the fetch reaches, by induction on the
  distance of the accumulated count from the bound \<open>T\<close>.\<close>

lemma fetch_loop_terminates:
  assumes "served_pages_progress T srv params s"
    and "loop_state srv k params [] s = Some (p, d, s1)"
  shows "\<exists>r. fetch_loop srv p d s1 = Some r"
  using assms(2)
proof (induction "nat (T - int (length d))" arbitrary: k p d s1 rule: less_induct)
  case less
  obtain st s2 where fb: "fetch_body srv p d s1 = (st, s2)"
    by (cases "fetch_body srv p d s1")
  show ?case
  proof (cases st)
    case (Break d')
    with fb show ?thesis by (simp add: fetch_loop_Break)
  next
    case (Raise e)
    with fb show ?thesis by (simp add: fetch_loop_Raise)
  next
    case (Continue p' d')
    with fb have c: "fetch_body srv p d s1 = (Continue p' d', s2)" by simp
    from served_pages_progressD[OF assms(1) less.prems c]
    have m: "nat (T - int (length d')) < nat (T - int (length d))" by linarith
    from loop_state_Suc_end[OF less.prems c]
    have "\<exists>r. fetch_loop srv p' d' s2 = Some r"
      by (rule less.hyps[OF m])
    then show ?thesis by (simp add: fetch_loop_Continue[OF c])
  qed
qed

text \<open>A well-formed page that reports a total of at most \<open>T\<close> and either holds a
  record or reports a total already reached makes the progress asked for.\<close>

lemma fetch_body_page_progress:
  assumes "srv s1 p = (Inr resp, s2)" and "page_of resp = Some (recs, n)"
    and "n \<le> T" and "recs \<noteq> [] \<or> n \<le> int (length d)"
  shows "case fetch_body srv p d s1 of
           (Continue p' d', s2) \<Rightarrow> length d < length d' \<and> int (length d') < T
         | _ \<Rightarrow> True"
  using assms by (auto simp add: fetch_body_def page_step_page_of)

text \<open>The run against a server that serves a table by offset and length: after \<open>k\<close>
  pages the accumulated records are the first \<open>5000 * k\<close> of the table.\<close>

lemma fetch_body_table_server:
  assumes "length' params = 5000" "0 \<le> offset params"
    and "all_data = take (nat (offset params)) recs"
  shows "fetch_body (table_server recs) params all_data s =
     (if length recs \<le> nat (offset params) + 5000 then Break recs
      else Continue (params\<lparr>offset := offset params + 5000\<rparr>)
             (take (nat (offset params) + 5000) recs), s)"
proof -
  let ?o = "nat (offset params)"
  have pg: "page_of (ok_response (take 5000 (drop ?o recs)) (PInt (int (length recs))))
              = Some (take 5000 (drop ?o recs), int (length recs))"
    by (simp add: page_of_ok_response)
  have t: "take ?o recs @ take 5000 (drop ?o recs) = take (?o + 5000) recs"
    by (simp add: take_add)
  have l: "length (take ?o recs) + length (take 5000 (drop ?o recs)) = min (length recs) (?o + 5000)"
    by auto
  show ?thesis
    using assms(1,3) t l
    by (auto simp add: fetch_body_def table_server_def page_step_page_of[OF pg])
qed

lemma loop_state_table_server:
  "loop_state (table_server recs) k params all_data s = Some (p, d, s1) \<Longrightarrow>
   length' params = 5000 \<Longrightarrow> 0 \<le> offset params \<Longrightarrow>
   all_data = take (nat (offset params)) recs \<Longrightarrow>
     length' p = 5000 \<and> offset p = offset params + 5000 * int k
     \<and> d = take (nat (offset p)) recs
     \<and> (0 < k \<longrightarrow> nat (offset p) < length recs)"
proof (induction k arbitrary: params all_data s)
  case 0
  then show ?case by auto
next
  case (Suc k)
  let ?p1 = "params\<lparr>offset := offset params + 5000\<rparr>"
  let ?d1 = "take (nat (offset params) + 5000) recs"
  from Suc.prems(1) fetch_body_table_server[OF Suc.prems(2,3,4), of s]
  have c: "\<not> length recs \<le> nat (offset params) + 5000"
    and r: "loop_state (table_server recs) k ?p1 ?d1 s = Some (p, d, s1)"
    by (auto split: if_splits)
  have o1: "nat (offset ?p1) = nat (offset params) + 5000"
    using Suc.prems(3) by (simp add: nat_add_distrib)
  have "length' ?p1 = 5000" "0 \<le> offset ?p1" "?d1 = take (nat (offset ?p1)) recs"
    using Suc.prems(2,3) o1 by simp_all
  from Suc.IH[OF r this]
  have ih: "length' p = 5000 \<and> offset p = offset ?p1 + 5000 * int k
     \<and> d = take (nat (offset p)) recs
     \<and> (0 < k \<longrightarrow> nat (offset p) < length recs)" .
  then have ih1: "length' p = 5000" and ih2: "offset p = offset ?p1 + 5000 * int k"
    and ih3: "d = take (nat (offset p)) recs"
    and ih4: "0 < k \<longrightarrow> nat (offset p) < length recs"
    by blast+
  have lt: "nat (offset p) < length recs"
  proof (cases k)
    case 0
    with ih2 have "offset p = offset ?p1" by simp
    with o1 c show ?thesis by simp
  next
    case (Suc j)
    with ih4 show ?thesis by simp
  qed
  have "offset p = offset params + 5000 * int (Suc k)"
    using ih2 by (simp add: algebra_simps)
  with ih1 ih3 lt show ?case by blast
qed

lemma loop_state_table_server_initial:
  assumes "loop_state (table_server recs) k (initial_params key region start_date end_date) [] s
        = Some (p, d, s1)"
  shows "length' p = 5000" "0 \<le> offset p" "d = take (nat (offset p)) recs"
    "nat (offset p) \<le> length recs"
proof -
  have a: "length' p = 5000 \<and> offset p = offset (initial_params key region start_date end_date) + 5000 * int k
     \<and> d = take (nat (offset p)) recs
     \<and> (0 < k \<longrightarrow> nat (offset p) < length recs)"
    by (rule loop_state_table_server[OF assms]) (simp_all add: initial_params_def)
  then show "length' p = 5000" "d = take (nat (offset p)) recs" by simp_all
  from a show "0 \<le> offset p" by (simp add: initial_params_def)
  from a have o: "offset p = 5000 * int k" by (simp add: initial_params_def)
  from a have lt: "0 < k \<longrightarrow> nat (offset p) < length recs" by blast
  show "nat (offset p) \<le> length recs"
  proof (cases k)
    case 0
    with o show ?thesis by simp
  next
    case (Suc j)
    with lt show ?thesis by simp
  qed
qed

lemma served_pages_progress_table_server:
  "served_pages_progress (int (length recs)) (table_server recs)
     (initial_params key region start_date end_date) s"
  unfolding served_pages_progress_def
proof (intro allI impI)
  fix k p d s1
  assume ls: "loop_state (table_server recs) k (initial_params key region start_date end_date) [] s
        = Some (p, d, s1)"
  note f = loop_state_table_server_initial[OF ls]
  from f(3,4) have ld: "length d = nat (offset p)" by simp
  show "case fetch_body (table_server recs) p d s1 of
           (Continue p' d', s2) \<Rightarrow> length d < length d' \<and> int (length d') < int (length recs)
         | _ \<Rightarrow> True"
    using ld by (simp add: fetch_body_table_server[OF f(1,2,3)])
qed

lemma served_pages_progress_const:
  assumes "py_int t = Inr n" "n \<le> T" "recs \<noteq> [] \<or> n \<le> 0"
  shows "served_pages_progress T (const_server (ok_response recs t)) params s"
  unfolding served_pages_progress_def
proof (intro allI impI)
  fix k p and d :: "pyval list" and s1 :: unit
  have "const_server (ok_response recs t) s1 p = (Inr (ok_response recs t), s1)"
    by (simp add: const_server_def)
  moreover have "page_of (ok_response recs t) = Some (recs, n)"
    by (rule page_of_ok_response[OF assms(1)])
  moreover note assms(2)
  moreover have "recs \<noteq> [] \<or> n \<le> int (length d)" using assms(3) by auto
  ultimately show "case fetch_body (const_server (ok_response recs t)) p d s1 of
           (Continue p' d', s2) \<Rightarrow> length d < length d' \<and> int (length d') < T
         | _ \<Rightarrow> True"
    by (rule fetch_body_page_progress)
qed

text \<open>Against a server that serves a table by offset and length and reports its size,
  the fetch returns the table, whatever its size.\<close>

lemma fetch_loop_table_server:
  assumes "length' p = 5000" "0 \<le> offset p" "d = take (nat (offset p)) recs"
  shows "fetch_loop (table_server recs) p d s = Some (Inr recs, s)"
  using assms
proof (induction "length recs - nat (offset p)" arbitrary: p d rule: less_induct)
  case less
  note fb = fetch_body_table_server[OF less.prems, of s]
  show ?case
  proof (cases "length recs \<le> nat (offset p) + 5000")
    case True
    with fb show ?thesis by (simp add: fetch_loop_Break)
  next
    case False
    let ?p1 = "p\<lparr>offset := offset p + 5000\<rparr>"
    let ?d1 = "take (nat (offset p) + 5000) recs"
    from False fb have c: "fetch_body (table_server recs) p d s = (Continue ?p1 ?d1, s)"
      by simp
    have o1: "nat (offset ?p1) = nat (offset p) + 5000"
      using less.prems(2) by (simp add: nat_add_distrib)
    have m: "length recs - nat (offset ?p1) < length recs - nat (offset p)"
      using False o1 by simp
    have "fetch_loop (table_server recs) ?p1 ?d1 s = Some (Inr recs, s)"
      by (rule less.hyps[OF m]) (use less.prems o1 in simp_all)
    with fetch_loop_Continue[OF c] show ?thesis by (rule trans)
  qed
qed

lemma fetch_table_server:
  "fetch_eia_electricity_demand (table_server recs) key region start_date end_date s
     = Some (Inr recs, s)"
  unfolding fetch_eia_electricity_demand_def
  by (rule fetch_loop_table_server) (simp_all add: initial_params_def)

subsection \<open>Termination of the fetch loop\<close>

text \<open>
  C1, as stated: for every entity and window the fetch loop terminates, the bound
  ``accumulated count \<open>\<ge>\<close> reported total'' alone guaranteeing it. This fails: a server
  that answers every request with status 200, an empty \<^verbatim>\<open>data\<close> array and a total
  of 1 keeps the loop running for ever, since the accumulated count stays 0.
\<close>

theorem fetch_loop_diverges_counterexample:
  "fetch_eia_electricity_demand (const_server (ok_response [] (PInt 1)))
     ''key'' ''PJM'' ''2020-01-01'' ''2024-01-01'' () = None"
  unfolding fetch_eia_electricity_demand_def
  by (rule fetch_loop_diverges[where I = "\<lambda>p d s. d = []"])
     (simp_all add: fetch_body_def const_server_def
        page_step_page_of[OF page_of_ok_response[of _ 1]])

text \<open>
  C1, amended: the loop leaves at the first well-formed page after which the
  accumulated count is at least the total that page reports, returning the accumulated
  records; and the fetch terminates for every entity and window when every page it is
  actually served that sends the loop round again has added at least one record and has
  left the accumulated count under a bound \<open>T\<close>, as is the case when the totals reported
  are at most \<open>T\<close> and no page short of its total is empty. The pages may hold fewer
  records than were asked for. A server that honours offset and length meets the
  condition, whatever the size of its table, and so do a server that reports no data
  and a run that an error ends.
\<close>

theorem fetch_stops_at_total:
  "(srv s params = (Inr resp, s') \<and> page_of resp = Some (recs, n)
      \<and> n \<le> int (length (all_data @ recs))
      \<longrightarrow> fetch_loop srv params all_data s = Some (Inr (all_data @ recs), s'))
   \<and> (served_pages_progress T srv (initial_params key region start_date end_date) s \<longrightarrow>
        (\<exists>r. fetch_eia_electricity_demand srv key region start_date end_date s = Some r))"
proof (intro conjI impI)
  assume a: "srv s params = (Inr resp, s') \<and> page_of resp = Some (recs, n)
      \<and> n \<le> int (length (all_data @ recs))"
  then have "fetch_body srv params all_data s = (Break (all_data @ recs), s')"
    by (simp add: fetch_body_def page_step_page_of)
  then show "fetch_loop srv params all_data s = Some (Inr (all_data @ recs), s')"
    by (rule fetch_loop_Break)
next
  assume h: "served_pages_progress T srv (initial_params key region start_date end_date) s"
  have "loop_state srv 0 (initial_params key region start_date end_date) [] s
          = Some (initial_params key region start_date end_date, [], s)" by simp
  from fetch_loop_terminates[OF h this]
  show "\<exists>r. fetch_eia_electricity_demand srv key region start_date end_date s = Some r"
    unfolding fetch_eia_electricity_demand_def .
qed

theorem fetch_stops_at_total_witness:
  "served_pages_progress 2 (const_server (ok_response [PNone] (PStr ''2'')))
      (initial_params ''key'' ''PJM'' ''2020-01-01'' ''2024-01-01'') ()
   \<and> fetch_eia_electricity_demand (const_server (ok_response [PNone] (PStr ''2'')))
        ''key'' ''PJM'' ''2020-01-01'' ''2024-01-01'' () = Some (Inr [PNone, PNone], ())
   \<and> served_pages_progress 5001 (table_server (replicate 5001 PNone))
      (initial_params ''key'' ''PJM'' ''2020-01-01'' ''2024-01-01'') ()
   \<and> fetch_eia_electricity_demand (table_server (replicate 5001 PNone))
        ''key'' ''PJM'' ''2020-01-01'' ''2024-01-01'' () = Some (Inr (replicate 5001 PNone), ())
   \<and> served_pages_progress 0 (const_server (ok_response [] (PInt 0)))
      (initial_params ''key'' ''PJM'' ''2020-01-01'' ''2024-01-01'') ()
   \<and> (\<exists>r. fetch_eia_electricity_demand (const_server (ok_response [] (PInt 0)))
        ''key'' ''PJM'' ''2020-01-01'' ''2024-01-01'' () = Some r)
   \<and> served_pages_progress 0 scripted
      (initial_params ''key'' ''PJM'' ''2020-01-01'' ''2024-01-01'')
      [Inr \<lparr>status_code = 200, json = None\<rparr>]
   \<and> (\<exists>r. fetch_eia_electricity_demand scripted
        ''key'' ''PJM'' ''2020-01-01'' ''2024-01-01''
        [Inr \<lparr>status_code = 200, json = None\<rparr>] = Some r)"
proof -
  let ?p = "initial_params ''key'' ''PJM'' ''2020-01-01'' ''2024-01-01''"
  let ?one = "const_server (ok_response [PNone] (PStr ''2''))"
  let ?tab = "table_server (replicate 5001 PNone)"
  let ?none = "const_server (ok_response [] (PInt 0))"
  let ?bad = "[Inr \<lparr>status_code = 200, json = None\<rparr>] :: response result list"
  have t2: "py_int (PStr ''2'') = Inr 2"
    by (simp add: int_of_str_def strip_def is_space_def parse_unsigned_def digit_of_def Let_def)
  have pg: "page_of (ok_response [PNone] (PStr ''2'')) = Some ([PNone], 2)"
    by (rule page_of_ok_response[OF t2])
  have h1: "served_pages_progress 2 ?one ?p ()"
    by (rule served_pages_progress_const[OF t2]) simp_all
  have h2: "served_pages_progress 5001 ?tab ?p ()"
    using served_pages_progress_table_server[of "replicate 5001 PNone"] by simp
  have h3: "served_pages_progress 0 ?none ?p ()"
    by (rule served_pages_progress_const[of _ 0]) simp_all
  have h4: "served_pages_progress 0 scripted ?p ?bad"
    unfolding served_pages_progress_def
  proof (intro allI impI)
    fix k p d s1
    assume "loop_state scripted k ?p [] ?bad = Some (p, d, s1)"
    then have "fst (fetch_body scripted p d s1) = Raise JSONDecodeError
        \<or> fst (fetch_body scripted p d s1) = Raise ConnectionError"
      by (cases k) (auto simp add: fetch_body_def scripted_def page_step_def split: list.splits)
    then show "case fetch_body scripted p d s1 of
           (Continue p' d', s2) \<Rightarrow> length d < length d' \<and> int (length d') < 0
         | _ \<Rightarrow> True"
      by (cases "fetch_body scripted p d s1") auto
  qed
  have c: "fetch_body ?one ?p [] () = (Continue (?p\<lparr>offset := offset ?p + 5000\<rparr>) [PNone], ())"
    by (simp add: fetch_body_def const_server_def page_step_page_of[OF pg])
  have s2: "?one () (?p\<lparr>offset := offset ?p + 5000\<rparr>) = (Inr (ok_response [PNone] (PStr ''2'')), ())"
    by (simp add: const_server_def)
  from fetch_stops_at_total[of ?one "()" "?p\<lparr>offset := offset ?p + 5000\<rparr>"
      "ok_response [PNone] (PStr ''2'')" "()" "[PNone]" 2 "[PNone]" 2
      "''key''" "''PJM''" "''2020-01-01''" "''2024-01-01''"] s2 pg
  have b: "fetch_loop ?one (?p\<lparr>offset := offset ?p + 5000\<rparr>) [PNone] () = Some (Inr [PNone, PNone], ())"
    by simp
  have r1: "fetch_eia_electricity_demand ?one ''key'' ''PJM'' ''2020-01-01'' ''2024-01-01'' ()
      = Some (Inr [PNone, PNone], ())"
    unfolding fetch_eia_electricity_demand_def
    by (simp add: fetch_loop_Continue[OF c] b)
  from fetch_stops_at_total[of ?tab "()" ?p undefined "()" "[]" 0 "[]" 5001
      "''key''" "''PJM''" "''2020-01-01''" "''2024-01-01''"] h2
  have "\<exists>r. fetch_eia_electricity_demand ?tab ''key'' ''PJM'' ''2020-01-01'' ''2024-01-01'' ()
      = Some r" by blast
  then have r2: "fetch_eia_electricity_demand ?tab ''key'' ''PJM'' ''2020-01-01'' ''2024-01-01'' ()
      = Some (Inr (replicate 5001 PNone), ())"
    by (simp add: fetch_table_server)
  from fetch_stops_at_total[of ?none "()" ?p undefined "()" "[]" 0 "[]" 0
      "''key''" "''PJM''" "''2020-01-01''" "''2024-01-01''"] h3
  have r3: "\<exists>r. fetch_eia_electricity_demand ?none ''key'' ''PJM'' ''2020-01-01'' ''2024-01-01'' ()
      = Some r" by blast
  from fetch_stops_at_total[of scripted ?bad ?p undefined "[]" "[]" 0 "[]" 0
      "''key''" "''PJM''" "''2020-01-01''" "''2024-01-01''"] h4
  have r4: "\<exists>r. fetch_eia_electricity_demand scripted ''key'' ''PJM'' ''2020-01-01'' ''2024-01-01''
      ?bad = Some r" by blast
  from h1 r1 h2 r2 h3 r3 h4 r4 show ?thesis by blast
qed

lemma loop_state_logged:
  "loop_state srv k params all_data s = Some (p, d, s') \<Longrightarrow>
     \<exists>reqs'. loop_state (logged srv) k params all_data (s, reqs) = Some (p, d, (s', reqs'))"
proof (induction k arbitrary: params all_data s reqs)
  case 0
  then show ?case by simp
next
  case (Suc k)
  from Suc.prems obtain p1 d1 s1 where
    b: "fetch_body srv params all_data s = (Continue p1 d1, s1)"
    and r: "loop_state srv k p1 d1 s1 = Some (p, d, s')"
    by (auto split: prod.splits step.splits)
  from Suc.IH[OF r] b show ?case by (simp add: fetch_body_logged)
qed

lemma ingest_regions_Cons_Inr:
  "fetch_eia_electricity_demand srv key region start_date end_date s = Some (Inr d, s') \<Longrightarrow>
     ingest_regions srv key start_date end_date (region # regions) acc s
       = ingest_regions srv key start_date end_date regions (acc @ d) s'"
  by simp

lemma ingest_regions_Cons_Inl:
  "fetch_eia_electricity_demand srv key region start_date end_date s = Some (Inl e, s') \<Longrightarrow>
     ingest_regions srv key start_date end_date (region # regions) acc s = Some (Inl e, s')"
  by simp

subsection \<open>A page with a non-success status\<close>

text \<open>
  C2: if, after \<open>k\<close> pages that let the loop go on, a page request returns a status
  other than 200, the fetch for that entity returns exactly the records accumulated
  from those \<open>k\<close> earlier pages (none when \<open>k = 0\<close>), as a normal result and not as an
  exception, and the run goes on with the next entity, having appended those records.
\<close>

theorem non_success_status_truncates:
  assumes "loop_state srv k (initial_params key region start_date end_date) [] s
             = Some (p, d, s1)"
    and "srv s1 p = (Inr resp, s2)"
    and "status_code resp \<noteq> 200"
  shows "fetch_eia_electricity_demand srv key region start_date end_date s
           = Some (Inr d, s2)
       \<and> ingest_regions srv key start_date end_date (region # regions) acc s
           = ingest_regions srv key start_date end_date regions (acc @ d) s2
       \<and> (k = 0 \<longrightarrow> d = [])"
proof -
  have "fetch_body srv p d s1 = (Break d, s2)"
    using assms(2,3) by (simp add: fetch_body_def page_step_def)
  then have "fetch_loop srv p d s1 = Some (Inr d, s2)" by (rule fetch_loop_Break)
  with fetch_loop_loop_state[OF assms(1)]
  have f: "fetch_eia_electricity_demand srv key region start_date end_date s
           = Some (Inr d, s2)"
    unfolding fetch_eia_electricity_demand_def by simp
  moreover have "k = 0 \<longrightarrow> d = []" using assms(1) by auto
  ultimately show ?thesis using ingest_regions_Cons_Inr[OF f] by simp
qed

theorem non_success_status_truncates_witness:
  "fetch_eia_electricity_demand scripted ''key'' ''PJM'' ''2020-01-01'' ''2024-01-01''
      [Inr (ok_response [PNone] (PInt 2)), Inr \<lparr>status_code = 500, json = None\<rparr>,
       Inr (ok_response [PBool True] (PInt 1))]
     = Some (Inr [PNone], [Inr (ok_response [PBool True] (PInt 1))])
   \<and> ingest_regions scripted ''key'' ''2020-01-01'' ''2024-01-01'' [''PJM'', ''CISO''] []
      [Inr (ok_response [PNone] (PInt 2)), Inr \<lparr>status_code = 500, json = None\<rparr>,
       Inr (ok_response [PBool True] (PInt 1))]
     = Some (Inr [PNone, PBool True], [])"
proof -
  let ?p = "initial_params ''key'' ''PJM'' ''2020-01-01'' ''2024-01-01''"
  let ?bad = "\<lparr>status_code = 500, json = None\<rparr>"
  let ?r3 = "Inr (ok_response [PBool True] (PInt 1)) :: response result"
  let ?s = "[Inr (ok_response [PNone] (PInt 2)), Inr ?bad, ?r3]"
  have 1: "loop_state scripted (Suc 0) ?p [] ?s
             = Some (?p\<lparr>offset := offset ?p + 5000\<rparr>, [PNone], [Inr ?bad, ?r3])"
    by (simp add: fetch_body_def scripted_def
        page_step_page_of[OF page_of_ok_response[of _ 2]])
  have 2: "scripted [Inr ?bad, ?r3] (?p\<lparr>offset := offset ?p + 5000\<rparr>) = (Inr ?bad, [?r3])"
    by (simp add: scripted_def)
  have 3: "status_code ?bad \<noteq> 200" by simp
  have 4: "fetch_eia_electricity_demand scripted ''key'' ''CISO'' ''2020-01-01'' ''2024-01-01''
             [?r3] = Some (Inr [PBool True], [])"
    unfolding fetch_eia_electricity_demand_def
    by (rule fetch_loop_Break)
       (simp add: fetch_body_def scripted_def
          page_step_page_of[OF page_of_ok_response[of _ 1]])
  from non_success_status_truncates[OF 1 2 3, of "[''CISO'']" "[]"] 4
  show ?thesis by simp
qed

subsection \<open>A first page that already holds the reported total\<close>

text \<open>
  C10: if the answer to the first request is a well-formed page whose reported total
  is at most the number of records it holds (for instance total 0 and no records), the
  fetch returns exactly that page's records and the server has received exactly one
  request, the initial one.
\<close>

theorem single_page_fetch:
  assumes "srv s (initial_params key region start_date end_date) = (Inr resp, s')"
    and "page_of resp = Some (recs, n)"
    and "n \<le> int (length recs)"
  shows "fetch_eia_electricity_demand srv key region start_date end_date s
           = Some (Inr recs, s')
       \<and> fetch_eia_electricity_demand (logged srv) key region start_date end_date (s, [])
           = Some (Inr recs, (s', [initial_params key region start_date end_date]))"
proof -
  let ?p = "initial_params key region start_date end_date"
  have b: "fetch_body srv ?p [] s = (Break recs, s')"
    using assms by (simp add: fetch_body_def page_step_page_of)
  then have "fetch_body (logged srv) ?p [] (s, []) = (Break recs, (s', [?p]))"
    by (simp add: fetch_body_logged)
  with b show ?thesis
    unfolding fetch_eia_electricity_demand_def by (simp add: fetch_loop_Break)
qed

theorem single_page_fetch_witness:
  "fetch_eia_electricity_demand
       (const_server (ok_response [PStr ''a'', PStr ''b''] (PStr ''2'')))
       ''key'' ''PJM'' ''2020-01-01'' ''2024-01-01'' ()
     = Some (Inr [PStr ''a'', PStr ''b''], ())
   \<and> fetch_eia_electricity_demand
       (logged (const_server (ok_response [PStr ''a'', PStr ''b''] (PStr ''2''))))
       ''key'' ''PJM'' ''2020-01-01'' ''2024-01-01'' ((), [])
     = Some (Inr [PStr ''a'', PStr ''b''],
             ((), [initial_params ''key'' ''PJM'' ''2020-01-01'' ''2024-01-01'']))
   \<and> fetch_eia_electricity_demand (logged (const_server (ok_response [] (PInt 0))))
       ''key'' ''PJM'' ''2020-01-01'' ''2024-01-01'' ((), [])
       = Some (Inr [], ((), [initial_params ''key'' ''PJM'' ''2020-01-01'' ''2024-01-01'']))"
proof -
  have t2: "py_int (PStr ''2'') = Inr 2"
    by (simp add: int_of_str_def strip_def is_space_def parse_unsigned_def digit_of_def Let_def)
  have pg: "page_of (ok_response [PStr ''a'', PStr ''b''] (PStr ''2''))
              = Some ([PStr ''a'', PStr ''b''], 2)"
    by (rule page_of_ok_response[OF t2])
  from single_page_fetch[of "const_server (ok_response [PStr ''a'', PStr ''b''] (PStr ''2''))" "()"
      "''key''" "''PJM''" "''2020-01-01''" "''2024-01-01''"
      "ok_response [PStr ''a'', PStr ''b''] (PStr ''2'')" "()" "[PStr ''a'', PStr ''b'']" 2] pg
  have 1: "fetch_eia_electricity_demand
       (const_server (ok_response [PStr ''a'', PStr ''b''] (PStr ''2'')))
       ''key'' ''PJM'' ''2020-01-01'' ''2024-01-01'' ()
     = Some (Inr [PStr ''a'', PStr ''b''], ())
   \<and> fetch_eia_electricity_demand
       (logged (const_server (ok_response [PStr ''a'', PStr ''b''] (PStr ''2''))))
       ''key'' ''PJM'' ''2020-01-01'' ''2024-01-01'' ((), [])
     = Some (Inr [PStr ''a'', PStr ''b''],
             ((), [initial_params ''key'' ''PJM'' ''2020-01-01'' ''2024-01-01'']))"
    by (simp add: const_server_def)
  from single_page_fetch[of "const_server (ok_response [] (PInt 0))" "()"
      "''key''" "''PJM''" "''2020-01-01''" "''2024-01-01''"
      "ok_response [] (PInt 0)" "()" "[]" 0]
  have 2: "fetch_eia_electricity_demand (logged (const_server (ok_response [] (PInt 0))))
       ''key'' ''PJM'' ''2020-01-01'' ''2024-01-01'' ((), [])
       = Some (Inr [], ((), [initial_params ''key'' ''PJM'' ''2020-01-01'' ''2024-01-01'']))"
    by (simp add: const_server_def page_of_ok_response)
  from 1 2 show ?thesis by blast
qed

lemma loop_state_Suc_endD:
  "loop_state srv (Suc k) params all_data s = Some (p, d, s') \<Longrightarrow>
     \<exists>pk dk sk. loop_state srv k params all_data s = Some (pk, dk, sk)
        \<and> fetch_body srv pk dk sk = (Continue p d, s')"
proof (induction k arbitrary: params all_data s)
  case 0
  then show ?case by (auto split: prod.splits step.splits)
next
  case (Suc k)
  from Suc.prems obtain p1 d1 s1 where
    b: "fetch_body srv params all_data s = (Continue p1 d1, s1)"
    and r: "loop_state srv (Suc k) p1 d1 s1 = Some (p, d, s')"
    by (auto split: prod.splits step.splits)
  from Suc.IH[OF r] obtain pk dk sk where
    "loop_state srv k p1 d1 s1 = Some (pk, dk, sk)"
    "fetch_body srv pk dk sk = (Continue p d, s')" by blast
  with b show ?case by simp
qed

lemma page_step_Continue_status:
  "page_step params all_data resp = Continue p' d' \<Longrightarrow> status_code resp = 200"
  unfolding page_step_def by (simp split: if_splits)

lemma full_pages_served_Suc:
  assumes "full_pages_served srv (Suc k) params s"
    and "loop_state srv k params [] s = Some (pk, dk, sk)"
    and "fetch_body srv pk dk sk = (Continue p d, s')"
  shows "full_pages_served srv k params s \<and> length d = length dk + 5000"
proof -
  from assms(1) have a: "full_pages_served srv k params s"
    unfolding full_pages_served_def by simp
  obtain res s1 where sr: "srv sk pk = (res, s1)" by (cases "srv sk pk")
  with assms(3) obtain resp where r: "res = Inr resp"
    and ps: "page_step pk dk resp = Continue p d"
    by (cases res) (auto simp: fetch_body_def)
  from assms(1) have "case loop_state srv k params [] s of
              None \<Rightarrow> True
            | Some (p, d, s1) \<Rightarrow>
               (case fst (srv s1 p) of
                  Inl e \<Rightarrow> True
                | Inr resp \<Rightarrow>
                   (case page_of resp of None \<Rightarrow> False
                    | Some (recs, n) \<Rightarrow> length recs = 5000))"
    unfolding full_pages_served_def by blast
  with assms(2) sr r have "case page_of resp of None \<Rightarrow> False
                    | Some (recs, n) \<Rightarrow> length recs = 5000" by simp
  then obtain recs n where pg: "page_of resp = Some (recs, n)" and l: "length recs = 5000"
    by (cases "page_of resp") auto
  from ps l have "length d = length dk + 5000"
    by (auto simp: page_step_page_of[OF pg] split: if_splits)
  with a show ?thesis by simp
qed

lemma loop_state_full_length:
  "full_pages_served srv k params s \<Longrightarrow> loop_state srv k params [] s = Some (p, d, s') \<Longrightarrow>
     length d = 5000 * k"
proof (induction k arbitrary: p d s')
  case 0
  then show ?case by simp
next
  case (Suc k)
  from loop_state_Suc_endD[OF Suc.prems(2)] obtain pk dk sk where
    ls: "loop_state srv k params [] s = Some (pk, dk, sk)"
    and c: "fetch_body srv pk dk sk = (Continue p d, s')" by blast
  from full_pages_served_Suc[OF Suc.prems(1) ls c]
  have f: "full_pages_served srv k params s" and l: "length d = length dk + 5000" by simp_all
  from Suc.IH[OF f ls] l show ?case by simp
qed

lemma full_pages_served_table_server:
  assumes "loop_state (table_server recs) k (initial_params key region start_date end_date) [] s
             = Some (p, d, s')"
  shows "full_pages_served (table_server recs) k (initial_params key region start_date end_date) s"
  using assms
proof (induction k arbitrary: p d s')
  case 0
  then show ?case by (simp add: full_pages_served_def)
next
  case (Suc k)
  let ?init = "initial_params key region start_date end_date"
  from loop_state_Suc_endD[OF Suc.prems] obtain pk dk sk where
    ls: "loop_state (table_server recs) k ?init [] s = Some (pk, dk, sk)"
    and c: "fetch_body (table_server recs) pk dk sk = (Continue p d, s')" by blast
  have f: "full_pages_served (table_server recs) k ?init s" by (rule Suc.IH[OF ls])
  have "length' pk = 5000 \<and> offset pk = offset ?init + 5000 * int k
     \<and> dk = take (nat (offset pk)) recs
     \<and> (0 < k \<longrightarrow> nat (offset pk) < length recs)"
    by (rule loop_state_table_server[OF ls]) (simp_all add: initial_params_def)
  then have lp: "length' pk = 5000" and o: "0 \<le> offset pk"
    and dk: "dk = take (nat (offset pk)) recs"
    by (simp_all add: initial_params_def)
  from c fetch_body_table_server[OF lp o dk, of sk]
  have n: "\<not> length recs \<le> nat (offset pk) + 5000" by (auto split: if_splits)
  then have l: "length (take 5000 (drop (nat (offset pk)) recs)) = 5000" by simp
  show ?case
    unfolding full_pages_served_def
  proof (intro allI impI)
    fix j assume "j < Suc k"
    then consider "j < k" | "j = k" by linarith
    then show "case loop_state (table_server recs) j ?init [] s of
              None \<Rightarrow> True
            | Some (p, d, s1) \<Rightarrow>
               (case fst (table_server recs s1 p) of
                  Inl e \<Rightarrow> True
                | Inr resp \<Rightarrow>
                   (case page_of resp of None \<Rightarrow> False
                    | Some (recs, n) \<Rightarrow> length recs = 5000))"
    proof cases
      case 1
      with f show ?thesis unfolding full_pages_served_def by blast
    next
      case 2
      with ls lp l show ?thesis
        by (simp add: table_server_def page_of_ok_response)
    qed
  qed
qed

text \<open>At every request sent to a server that serves a table by offset and length, the
  offset is the number of records accumulated so far.\<close>

lemma offset_table_server:
  assumes "loop_state (table_server recs) k (initial_params key region start_date end_date) [] s
             = Some (p, d, s')"
  shows "offset p = int (length d)"
proof -
  note f = loop_state_table_server_initial[OF assms]
  from f(3,4) have "length d = nat (offset p)" by simp
  with f(2) show ?thesis by simp
qed

subsection \<open>The offset cursor\<close>

text \<open>
  C9, as stated: after every successful page the offset sent in the next request
  equals the number of records accumulated so far. This fails when a page holds fewer
  than 5000 records: after one page of a single record (total 2) the next request is
  sent with offset 5000 while one record has been accumulated.
\<close>

theorem offset_counterexample:
  "loop_state (const_server (ok_response [PNone] (PInt 2))) (Suc 0)
      (initial_params ''key'' ''PJM'' ''2020-01-01'' ''2024-01-01'') [] ()
     = Some ((initial_params ''key'' ''PJM'' ''2020-01-01'' ''2024-01-01'')\<lparr>offset := 5000\<rparr>,
             [PNone], ())
   \<and> offset ((initial_params ''key'' ''PJM'' ''2020-01-01'' ''2024-01-01'')\<lparr>offset := 5000\<rparr>)
       \<noteq> int (length [PNone])"
  by (simp add: fetch_body_def const_server_def initial_params_def
      page_step_page_of[OF page_of_ok_response[of _ 2]])

text \<open>
  C9, amended: the offset starts at 0 and is advanced by the page size 5000 after
  every page that lets the loop go on, whatever the number of records in the page, so
  that the request sent after \<open>k\<close> such pages is the initial one with offset
  \<open>5000 * k\<close>; the offset equals the number of records accumulated so far when each
  of these \<open>k\<close> pages held exactly 5000 records, as is the case at every request sent
  to a server that honours offset and length.
\<close>

theorem offset_is_page_count:
  assumes "loop_state srv k (initial_params key region start_date end_date) [] s
             = Some (p, d, s')"
  shows "p = (initial_params key region start_date end_date)\<lparr>offset := 5000 * int k\<rparr>
       \<and> (full_pages_served srv k (initial_params key region start_date end_date) s
            \<longrightarrow> offset p = int (length d))"
proof -
  from loop_state_offset[OF assms]
  have p: "p = (initial_params key region start_date end_date)\<lparr>offset := 5000 * int k\<rparr>"
    by (simp add: initial_params_def)
  have o: "offset p = 5000 * int k" by (subst p) simp
  have "full_pages_served srv k (initial_params key region start_date end_date) s
          \<longrightarrow> offset p = int (length d)"
  proof
    assume "full_pages_served srv k (initial_params key region start_date end_date) s"
    from loop_state_full_length[OF this assms] o show "offset p = int (length d)" by simp
  qed
  with p show ?thesis by simp
qed

theorem offset_is_page_count_witness:
  "loop_state (table_server (replicate 5001 PNone)) (Suc 0)
      (initial_params ''key'' ''PJM'' ''2020-01-01'' ''2024-01-01'') [] ()
     = Some ((initial_params ''key'' ''PJM'' ''2020-01-01'' ''2024-01-01'')\<lparr>offset := 5000\<rparr>,
             replicate 5000 PNone, ())
   \<and> full_pages_served (table_server (replicate 5001 PNone)) (Suc 0)
        (initial_params ''key'' ''PJM'' ''2020-01-01'' ''2024-01-01'') ()
   \<and> offset ((initial_params ''key'' ''PJM'' ''2020-01-01'' ''2024-01-01'')\<lparr>offset := 5000\<rparr>)
       = int (length (replicate 5000 PNone :: pyval list))"
proof -
  let ?srv = "table_server (replicate 5001 PNone)"
  let ?p = "initial_params ''key'' ''PJM'' ''2020-01-01'' ''2024-01-01''"
  have pg: "page_of (ok_response xs (PInt 5001)) = Some (xs, 5001)" for xs
    by (simp add: page_of_ok_response)
  have 1: "loop_state ?srv (Suc 0) ?p [] () = Some (?p\<lparr>offset := 5000\<rparr>, replicate 5000 PNone, ())"
    by (simp add: fetch_body_def table_server_def initial_params_def
      page_step_page_of[OF pg])
  have 2: "full_pages_served ?srv (Suc 0) ?p ()"
    by (rule full_pages_served_table_server[OF 1])
  from offset_is_page_count[OF 1] 1 2 show ?thesis by simp
qed

lemma missing_total_raises:
  "page_step params all_data
     \<lparr>status_code = 200,
      json = Some (PDict [(''response'', PDict [(''data'', PList recs)])])\<rparr>
   = Raise (KeyError ''total'')"
  by (simp add: page_step_def)

subsection \<open>Malformed bodies and missing fields\<close>

text \<open>
  C3, as stated: every per-page error other than a non-success status, a malformed
  JSON body included, is absorbed by truncating that entity's fetch and continuing with
  the next entity. This fails: \<^verbatim>\<open>response.json()\<close> raises on a body that is not JSON,
  nothing catches the exception, and the run ends with it before the next entity is
  fetched.
\<close>

theorem malformed_json_counterexample:
  "ingest_regions scripted ''key'' ''2020-01-01'' ''2024-01-01'' [''PJM'', ''CISO''] []
      [Inr \<lparr>status_code = 200, json = None\<rparr>, Inr (ok_response [PNone] (PInt 1))]
     = Some (Inl JSONDecodeError, [Inr (ok_response [PNone] (PInt 1))])"
proof -
  have "fetch_eia_electricity_demand scripted ''key'' ''PJM'' ''2020-01-01'' ''2024-01-01''
      [Inr \<lparr>status_code = 200, json = None\<rparr>, Inr (ok_response [PNone] (PInt 1))]
     = Some (Inl JSONDecodeError, [Inr (ok_response [PNone] (PInt 1))])"
    unfolding fetch_eia_electricity_demand_def
    by (rule fetch_loop_Raise) (simp add: fetch_body_def scripted_def page_step_def)
  then show ?thesis by simp
qed

text \<open>
  C3, amended: at any page with status 200, a decoded JSON object that lacks the
  \<^verbatim>\<open>response\<close> member, or whose \<^verbatim>\<open>response\<close> object lacks the \<^verbatim>\<open>data\<close> member, is
  absorbed: the fetch returns the records accumulated so far and the run continues with
  the next entity. A body that is not JSON is not absorbed: the decoding error leaves
  the fetch as an exception and ends the run.
\<close>

theorem page_errors:
  assumes "loop_state srv k (initial_params key region start_date end_date) [] s
             = Some (p, d, s1)"
    and "srv s1 p = (Inr resp, s2)"
    and "status_code resp = 200"
  shows "(json resp = None \<longrightarrow>
            fetch_eia_electricity_demand srv key region start_date end_date s
              = Some (Inl JSONDecodeError, s2)
          \<and> ingest_regions srv key start_date end_date (region # regions) acc s
              = Some (Inl JSONDecodeError, s2))
       \<and> ((\<exists>body. json resp = Some (PDict body) \<and>
              (map_of body ''response'' = None
               \<or> (\<exists>r. map_of body ''response'' = Some (PDict r) \<and> map_of r ''data'' = None)))
          \<longrightarrow>
            fetch_eia_electricity_demand srv key region start_date end_date s
              = Some (Inr d, s2)
          \<and> ingest_regions srv key start_date end_date (region # regions) acc s
              = ingest_regions srv key start_date end_date regions (acc @ d) s2)"
proof (intro conjI impI)
  assume "json resp = None"
  then have "fetch_body srv p d s1 = (Raise JSONDecodeError, s2)"
    using assms(2,3) by (simp add: fetch_body_def page_step_def)
  then have "fetch_loop srv p d s1 = Some (Inl JSONDecodeError, s2)" by (rule fetch_loop_Raise)
  with fetch_loop_loop_state[OF assms(1)]
  show f: "fetch_eia_electricity_demand srv key region start_date end_date s
           = Some (Inl JSONDecodeError, s2)"
    unfolding fetch_eia_electricity_demand_def by simp
  show "ingest_regions srv key start_date end_date (region # regions) acc s
              = Some (Inl JSONDecodeError, s2)"
    by (rule ingest_regions_Cons_Inl[OF f])
next
  assume a: "\<exists>body. json resp = Some (PDict body) \<and>
              (map_of body ''response'' = None
               \<or> (\<exists>r. map_of body ''response'' = Some (PDict r) \<and> map_of r ''data'' = None))"
  have "page_step p d resp = Break d"
  proof -
    from a obtain body where j: "json resp = Some (PDict body)"
      and c: "map_of body ''response'' = None
               \<or> (\<exists>r. map_of body ''response'' = Some (PDict r) \<and> map_of r ''data'' = None)"
      by blast
    from c show ?thesis
    proof
      assume "map_of body ''response'' = None"
      then have "''response'' \<notin> fst ` set body" by (simp add: map_of_eq_None_iff)
      then show ?thesis using assms(3) j by (simp add: page_step_def)
    next
      assume "\<exists>r. map_of body ''response'' = Some (PDict r) \<and> map_of r ''data'' = None"
      then obtain r where r: "map_of body ''response'' = Some (PDict r)"
        and dn: "map_of r ''data'' = None" by blast
      from r have "''response'' \<in> fst ` set body" by (rule map_of_Some_in_keys)
      moreover from dn have "''data'' \<notin> fst ` set r" by (simp add: map_of_eq_None_iff)
      ultimately show ?thesis using assms(3) j r by (simp add: page_step_def)
    qed
  qed
  then have "fetch_body srv p d s1 = (Break d, s2)"
    using assms(2) by (simp add: fetch_body_def)
  then have "fetch_loop srv p d s1 = Some (Inr d, s2)" by (rule fetch_loop_Break)
  with fetch_loop_loop_state[OF assms(1)]
  show f: "fetch_eia_electricity_demand srv key region start_date end_date s
           = Some (Inr d, s2)"
    unfolding fetch_eia_electricity_demand_def by simp
  show "ingest_regions srv key start_date end_date (region # regions) acc s
              = ingest_regions srv key start_date end_date regions (acc @ d) s2"
    by (rule ingest_regions_Cons_Inr[OF f])
qed

theorem page_errors_witness:
  "fetch_eia_electricity_demand scripted ''key'' ''PJM'' ''2020-01-01'' ''2024-01-01''
      [Inr (ok_response [PNone] (PInt 2)), Inr \<lparr>status_code = 200, json = None\<rparr>,
       Inr (ok_response [PBool True] (PInt 1))]
     = Some (Inl JSONDecodeError, [Inr (ok_response [PBool True] (PInt 1))])
   \<and> ingest_regions scripted ''key'' ''2020-01-01'' ''2024-01-01'' [''PJM'', ''CISO''] []
      [Inr (ok_response [PNone] (PInt 2)), Inr \<lparr>status_code = 200, json = None\<rparr>,
       Inr (ok_response [PBool True] (PInt 1))]
     = Some (Inl JSONDecodeError, [Inr (ok_response [PBool True] (PInt 1))])
   \<and> fetch_eia_electricity_demand scripted ''key'' ''PJM'' ''2020-01-01'' ''2024-01-01''
      [Inr (ok_response [PNone] (PInt 2)),
       Inr \<lparr>status_code = 200, json = Some (PDict [(''response'', PDict [(''total'', PInt 2)])])\<rparr>,
       Inr (ok_response [PBool True] (PInt 1))]
     = Some (Inr [PNone], [Inr (ok_response [PBool True] (PInt 1))])
   \<and> ingest_regions scripted ''key'' ''2020-01-01'' ''2024-01-01'' [''PJM'', ''CISO''] []
      [Inr (ok_response [PNone] (PInt 2)),
       Inr \<lparr>status_code = 200, json = Some (PDict [(''response'', PDict [(''total'', PInt 2)])])\<rparr>,
       Inr (ok_response [PBool True] (PInt 1))]
     = Some (Inr [PNone, PBool True], [])
   \<and> ingest_regions scripted ''key'' ''2020-01-01'' ''2024-01-01'' [''PJM'', ''CISO''] []
      [Inr \<lparr>status_code = 200, json = Some (PDict [(''error'', PStr ''invalid'')])\<rparr>,
       Inr (ok_response [PBool True] (PInt 1))]
     = Some (Inr [PBool True], [])"
proof -
  let ?p = "initial_params ''key'' ''PJM'' ''2020-01-01'' ''2024-01-01''"
  let ?p1 = "?p\<lparr>offset := offset ?p + 5000\<rparr>"
  let ?ok = "Inr (ok_response [PNone] (PInt 2)) :: response result"
  let ?bad = "\<lparr>status_code = 200, json = None\<rparr>"
  let ?nodata = "\<lparr>status_code = 200,
                  json = Some (PDict [(''response'', PDict [(''total'', PInt 2)])])\<rparr>"
  let ?noresp = "\<lparr>status_code = 200, json = Some (PDict [(''error'', PStr ''invalid'')])\<rparr>"
  let ?r3 = "Inr (ok_response [PBool True] (PInt 1)) :: response result"
  have a: "loop_state scripted (Suc 0) ?p [] [?ok, Inr ?bad, ?r3]
             = Some (?p1, [PNone], [Inr ?bad, ?r3])"
    by (simp add: fetch_body_def scripted_def
        page_step_page_of[OF page_of_ok_response[of _ 2]])
  have b: "scripted [Inr ?bad, ?r3] ?p1 = (Inr ?bad, [?r3])" by (simp add: scripted_def)
  have c: "loop_state scripted (Suc 0) ?p [] [?ok, Inr ?nodata, ?r3]
             = Some (?p1, [PNone], [Inr ?nodata, ?r3])"
    by (simp add: fetch_body_def scripted_def
        page_step_page_of[OF page_of_ok_response[of _ 2]])
  have d: "scripted [Inr ?nodata, ?r3] ?p1 = (Inr ?nodata, [?r3])" by (simp add: scripted_def)
  have e: "loop_state scripted 0 ?p [] [Inr ?noresp, ?r3] = Some (?p, [], [Inr ?noresp, ?r3])"
    by simp
  have f: "scripted [Inr ?noresp, ?r3] ?p = (Inr ?noresp, [?r3])" by (simp add: scripted_def)
  have n: "fetch_eia_electricity_demand scripted ''key'' ''CISO'' ''2020-01-01'' ''2024-01-01''
             [?r3] = Some (Inr [PBool True], [])"
    unfolding fetch_eia_electricity_demand_def
    by (rule fetch_loop_Break)
       (simp add: fetch_body_def scripted_def
          page_step_page_of[OF page_of_ok_response[of _ 1]])
  from page_errors[OF a b, of "[''CISO'']" "[]"]
  have 1: "fetch_eia_electricity_demand scripted ''key'' ''PJM'' ''2020-01-01'' ''2024-01-01''
             [?ok, Inr ?bad, ?r3] = Some (Inl JSONDecodeError, [?r3])"
    and 2: "ingest_regions scripted ''key'' ''2020-01-01'' ''2024-01-01'' [''PJM'', ''CISO''] []
             [?ok, Inr ?bad, ?r3] = Some (Inl JSONDecodeError, [?r3])"
    by simp_all
  from page_errors[OF c d, of "[''CISO'']" "[]"] n
  have 3: "fetch_eia_electricity_demand scripted ''key'' ''PJM'' ''2020-01-01'' ''2024-01-01''
             [?ok, Inr ?nodata, ?r3] = Some (Inr [PNone], [?r3])"
    and 4: "ingest_regions scripted ''key'' ''2020-01-01'' ''2024-01-01'' [''PJM'', ''CISO''] []
             [?ok, Inr ?nodata, ?r3] = Some (Inr [PNone, PBool True], [])"
    by simp_all
  from page_errors[OF e f, of "[''CISO'']" "[]"] n
  have 5: "ingest_regions scripted ''key'' ''2020-01-01'' ''2024-01-01'' [''PJM'', ''CISO''] []
             [Inr ?noresp, ?r3] = Some (Inr [PBool True], [])"
    by simp
  from 1 2 3 4 5 show ?thesis by blast
qed

subsection \<open>A page boundary\<close>

text \<open>
  C8: for an entity with exactly 5001 matching records, served by offset and length
  with the table size as the total, the fetch issues exactly two requests (offsets 0
  and 5000) and returns the 5001 records themselves, in order: as many as the reported
  total, none dropped and none duplicated at the boundary.
\<close>

theorem page_boundary_5001:
  assumes "length recs = 5001"
  shows "fetch_eia_electricity_demand (logged (table_server recs))
            key region start_date end_date ((), [])
         = Some (Inr recs,
                 ((), [initial_params key region start_date end_date,
                       (initial_params key region start_date end_date)\<lparr>offset := 5000\<rparr>]))"
proof -
  let ?p = "initial_params key region start_date end_date"
  let ?srv = "logged (table_server recs)"
  have pg: "page_of (ok_response xs (PInt 5001)) = Some (xs, 5001)" for xs
    by (simp add: page_of_ok_response)
  have i1: "fetch_body (table_server recs) ?p [] () =
             (Continue (?p\<lparr>offset := 5000\<rparr>) (take 5000 recs), ())"
    using assms
    by (simp add: fetch_body_def table_server_def initial_params_def
        page_step_page_of[OF pg])
  have 1: "fetch_body ?srv ?p [] ((), []) =
             (Continue (?p\<lparr>offset := 5000\<rparr>) (take 5000 recs), ((), [?p]))"
    by (subst fetch_body_logged) (simp add: i1)
  have t: "take 5000 recs @ take 5000 (drop 5000 recs) = recs"
    using assms by simp
  have i2: "fetch_body (table_server recs) (?p\<lparr>offset := 5000\<rparr>) (take 5000 recs) () =
             (Break recs, ())"
    using assms t
    by (simp add: fetch_body_def table_server_def initial_params_def
        page_step_page_of[OF pg])
  have 2: "fetch_body ?srv (?p\<lparr>offset := 5000\<rparr>) (take 5000 recs) ((), [?p]) =
             (Break recs, ((), [?p, ?p\<lparr>offset := 5000\<rparr>]))"
    by (subst fetch_body_logged) (simp add: i2)
  show ?thesis
    unfolding fetch_eia_electricity_demand_def
    by (simp add: fetch_loop_Continue[OF 1] fetch_loop_Break[OF 2])
qed

theorem page_boundary_5001_witness:
  "length (map PInt [1..5001]) = 5001
   \<and> fetch_eia_electricity_demand (logged (table_server (map PInt [1..5001])))
        ''key'' ''PJM'' ''2020-01-01'' ''2024-01-01'' ((), [])
      = Some (Inr (map PInt [1..5001]),
              ((), [initial_params ''key'' ''PJM'' ''2020-01-01'' ''2024-01-01'',
                    (initial_params ''key'' ''PJM'' ''2020-01-01'' ''2024-01-01'')
                      \<lparr>offset := 5000\<rparr>]))"
proof -
  have l: "length (map PInt [1..5001]) = 5001" by simp
  from page_boundary_5001[OF l] l show ?thesis by blast
qed

lemma fetch_body_state_independent:
  assumes "state_independent srv"
  shows "fst (fetch_body srv params all_data s) = fst (fetch_body srv params all_data t)"
proof -
  from assms have "fst (srv s params) = fst (srv t params)"
    unfolding state_independent_def by blast
  then show ?thesis
    by (cases "srv s params"; cases "srv t params")
       (auto simp: fetch_body_def split: sum.splits)
qed

lemma fetch_loop_state_independent_aux:
  assumes si: "state_independent srv0"
    and ret: "fetch_loop srv params all_data s = Some y"
  shows "srv = srv0 \<longrightarrow> (\<forall>t. \<exists>y'. fetch_loop srv params all_data t = Some y' \<and> fst y' = fst y)"
proof (rule fetch_loop.raw_induct
    [where P = "\<lambda>srv p d s y. srv = srv0 \<longrightarrow>
                  (\<forall>t. \<exists>y'. fetch_loop srv p d t = Some y' \<and> fst y' = fst y)", OF _ ret])
  fix loop :: "'a server \<Rightarrow> request \<Rightarrow> pyval list \<Rightarrow> 'a \<Rightarrow> (pyval list result \<times> 'a) option"
  fix srv params all_data s y
  assume ih: "\<And>srv p d s y. loop srv p d s = Some y \<Longrightarrow>
                srv = srv0 \<longrightarrow> (\<forall>t. \<exists>y'. fetch_loop srv p d t = Some y' \<and> fst y' = fst y)"
    and body: "(case fetch_body srv params all_data s of
        (Break d, s') \<Rightarrow> Some (Inr d, s')
      | (Raise e, s') \<Rightarrow> Some (Inl e, s')
      | (Continue params' d, s') \<Rightarrow> loop srv params' d s') = Some y"
  show "srv = srv0 \<longrightarrow> (\<forall>t. \<exists>y'. fetch_loop srv params all_data t = Some y' \<and> fst y' = fst y)"
  proof (intro impI allI)
    fix t
    assume e: "srv = srv0"
    obtain st s1 where b1: "fetch_body srv params all_data s = (st, s1)"
      by (cases "fetch_body srv params all_data s")
    obtain st' t1 where b2: "fetch_body srv params all_data t = (st', t1)"
      by (cases "fetch_body srv params all_data t")
    from fetch_body_state_independent[OF si, of params all_data s t] e b1 b2
    have same: "st' = st" by simp
    show "\<exists>y'. fetch_loop srv params all_data t = Some y' \<and> fst y' = fst y"
    proof (cases st)
      case (Break d)
      with body b1 have "y = (Inr d, s1)" by simp
      moreover from b2 same Break have "fetch_loop srv params all_data t = Some (Inr d, t1)"
        by (simp add: fetch_loop_Break)
      ultimately show ?thesis by simp
    next
      case (Raise e)
      with body b1 have "y = (Inl e, s1)" by simp
      moreover from b2 same Raise have "fetch_loop srv params all_data t = Some (Inl e, t1)"
        by (simp add: fetch_loop_Raise)
      ultimately show ?thesis by simp
    next
      case (Continue p' d')
      with body b1 have "loop srv p' d' s1 = Some y" by simp
      from ih[OF this] e obtain y' where
        "fetch_loop srv p' d' t1 = Some y'" "fst y' = fst y" by blast
      moreover from b2 same Continue
      have "fetch_loop srv params all_data t = fetch_loop srv p' d' t1"
        by (simp add: fetch_loop_Continue)
      ultimately show ?thesis by simp
    qed
  qed
qed

lemma fetch_loop_state_independent:
  assumes "state_independent srv"
  shows "map_option fst (fetch_loop srv params all_data s)
       = map_option fst (fetch_loop srv params all_data t)"
proof (cases "fetch_loop srv params all_data s")
  case None
  show ?thesis
  proof (cases "fetch_loop srv params all_data t")
    case None
    with \<open>fetch_loop srv params all_data s = None\<close> show ?thesis by simp
  next
    case (Some y)
    from fetch_loop_state_independent_aux[OF assms Some]
    have "\<exists>y'. fetch_loop srv params all_data s = Some y' \<and> fst y' = fst y" by blast
    with None show ?thesis by simp
  qed
next
  case (Some y)
  from fetch_loop_state_independent_aux[OF assms Some]
  obtain y' where "fetch_loop srv params all_data t = Some y'" "fst y' = fst y" by blast
  with Some show ?thesis by simp
qed

lemma state_independent_logged_table:
  "state_independent (logged (table_server recs))"
  by (simp add: state_independent_def logged_def table_server_def split: prod.splits)

subsection \<open>Idempotence of the fetch\<close>

text \<open>
  C7: the fetch keeps no state across calls. Against a server whose answers depend on
  the request only, two fetches with the same arguments give the same output (or both
  never return), from whatever states of the world they start; in particular a second
  fetch, started where the first one left the world, returns the same records.
\<close>

theorem fetch_idempotent:
  assumes "state_independent srv"
  shows "map_option fst (fetch_eia_electricity_demand srv key region start_date end_date s)
           = map_option fst (fetch_eia_electricity_demand srv key region start_date end_date t)
       \<and> (fetch_eia_electricity_demand srv key region start_date end_date s = Some (res, s')
            \<longrightarrow> (\<exists>s''. fetch_eia_electricity_demand srv key region start_date end_date s'
                          = Some (res, s'')))"
proof -
  have a: "map_option fst (fetch_eia_electricity_demand srv key region start_date end_date s)
           = map_option fst (fetch_eia_electricity_demand srv key region start_date end_date t)"
    for s t
    unfolding fetch_eia_electricity_demand_def by (rule fetch_loop_state_independent[OF assms])
  have "fetch_eia_electricity_demand srv key region start_date end_date s = Some (res, s')
            \<longrightarrow> (\<exists>s''. fetch_eia_electricity_demand srv key region start_date end_date s'
                          = Some (res, s''))"
  proof
    assume f: "fetch_eia_electricity_demand srv key region start_date end_date s = Some (res, s')"
    from a[of s s'] f
    have "map_option fst (fetch_eia_electricity_demand srv key region start_date end_date s')
            = Some res" by simp
    then show "\<exists>s''. fetch_eia_electricity_demand srv key region start_date end_date s'
                          = Some (res, s'')"
      by (cases "fetch_eia_electricity_demand srv key region start_date end_date s'") auto
  qed
  with a show ?thesis by blast
qed

theorem fetch_idempotent_witness:
  "state_independent (logged (table_server [PInt 1, PInt 2]))
   \<and> fetch_eia_electricity_demand (logged (table_server [PInt 1, PInt 2]))
        ''key'' ''PJM'' ''2020-01-01'' ''2024-01-01'' ((), [])
      = Some (Inr [PInt 1, PInt 2],
              ((), [initial_params ''key'' ''PJM'' ''2020-01-01'' ''2024-01-01'']))
   \<and> (\<exists>s''. fetch_eia_electricity_demand (logged (table_server [PInt 1, PInt 2]))
        ''key'' ''PJM'' ''2020-01-01'' ''2024-01-01''
        ((), [initial_params ''key'' ''PJM'' ''2020-01-01'' ''2024-01-01''])
      = Some (Inr [PInt 1, PInt 2], s''))"
proof -
  let ?srv = "logged (table_server [PInt 1, PInt 2])"
  let ?p = "initial_params ''key'' ''PJM'' ''2020-01-01'' ''2024-01-01''"
  have i: "fetch_body (table_server [PInt 1, PInt 2]) ?p [] () = (Break [PInt 1, PInt 2], ())"
    by (simp add: fetch_body_def table_server_def initial_params_def
        page_step_page_of[OF page_of_ok_response[of _ 2]])
  have b: "fetch_body ?srv ?p [] ((), []) = (Break [PInt 1, PInt 2], ((), [?p]))"
    by (subst fetch_body_logged) (simp add: i)
  have f: "fetch_eia_electricity_demand ?srv ''key'' ''PJM'' ''2020-01-01'' ''2024-01-01'' ((), [])
      = Some (Inr [PInt 1, PInt 2], ((), [?p]))"
    unfolding fetch_eia_electricity_demand_def by (rule fetch_loop_Break[OF b])
  from fetch_idempotent[OF state_independent_logged_table, of "[PInt 1, PInt 2]"
      "''key''" "''PJM''" "''2020-01-01''" "''2024-01-01''" "((), [])" "((), [])"
      "Inr [PInt 1, PInt 2]" "((), [?p])"] f state_independent_logged_table
  show ?thesis by blast
qed

section \<open>Properties of the bronze DataFrame\<close>

subsection \<open>The examples of the spec\<close>

text \<open>
  C4: with the reference parsing functions, a row with period \<^verbatim>\<open>20240115\<close> and
  value \<^verbatim>\<open>12345.6\<close> gets the date 2024-01-15 and the demand value 12345.6; a row
  with period \<^verbatim>\<open>2024-01-15\<close> gets the same date; and a row with value \<^verbatim>\<open>N/A\<close>
  gets a null demand value, as an ordinary value of the column. The length of the
  period selects the pattern: 8 characters the compact one, 10 the hyphenated one.
\<close>

theorem normalizer_examples:
  "date (bronze_of spark_ref now
            (r\<lparr>period := Some ''20240115'', value' := Some ''12345.6''\<rparr>))
       = Some (Date 2024 1 15)
   \<and> demand_mwh (bronze_of spark_ref now
            (r\<lparr>period := Some ''20240115'', value' := Some ''12345.6''\<rparr>))
       = Some (123456 / 10)
   \<and> date (bronze_of spark_ref now (r\<lparr>period := Some ''2024-01-15''\<rparr>))
       = Some (Date 2024 1 15)
   \<and> demand_mwh (bronze_of spark_ref now (r\<lparr>value' := Some ''N/A''\<rparr>)) = None"
proof (intro conjI)
  show "date (bronze_of spark_ref now
            (r\<lparr>period := Some ''20240115'', value' := Some ''12345.6''\<rparr>))
       = Some (Date 2024 1 15)"
    by (simp add: bronze_of_def date_col_def spark_ref_def sql_eq_def sql_length_def
        null_safe_def parse_compact_def make_date_def days_in_month_def digit_of_def
        eval_nat_numeral)
  show "demand_mwh (bronze_of spark_ref now
            (r\<lparr>period := Some ''20240115'', value' := Some ''12345.6''\<rparr>))
       = Some (123456 / 10)"
    by (simp add: bronze_of_def demand_mwh_col_def spark_ref_def null_safe_def
        parse_decimal_def integer_part_def fraction_part_def unsigned_part_def
        is_negative_def strip_def is_space_def digit_of_def Let_def)
  show "date (bronze_of spark_ref now (r\<lparr>period := Some ''2024-01-15''\<rparr>))
       = Some (Date 2024 1 15)"
    by (simp add: bronze_of_def date_col_def spark_ref_def sql_eq_def sql_length_def
        null_safe_def parse_hyphenated_def expect_def make_date_def days_in_month_def
        digit_of_def eval_nat_numeral)
  show "demand_mwh (bronze_of spark_ref now (r\<lparr>value' := Some ''N/A''\<rparr>)) = None"
    by (simp add: bronze_of_def demand_mwh_col_def spark_ref_def null_safe_def
        parse_decimal_def integer_part_def fraction_part_def unsigned_part_def
        is_negative_def strip_def is_space_def digit_of_def Let_def)
qed

subsection \<open>A row for a row\<close>

text \<open>
  C6: for every input sequence and whatever the parsing functions are, the normalizer
  is a total function that gives one output row for each input row, in the same
  position, so that nothing is removed, merged or reordered; the output row takes
  \<^verbatim>\<open>region_code\<close>, \<^verbatim>\<open>region_name\<close>, \<^verbatim>\<open>data_type\<close>, \<^verbatim>\<open>data_type_name\<close> and
  \<^verbatim>\<open>units\<close> from \<^verbatim>\<open>respondent\<close>, \<^verbatim>\<open>respondent-name\<close>, \<^verbatim>\<open>type\<close>, \<^verbatim>\<open>type-name\<close>
  and \<^verbatim>\<open>value-units\<close> of its input row, and has the nine columns of the output
  schema and no other.
\<close>

theorem df_bronze_rowwise:
  "length (df_bronze lib now df) = length df
   \<and> (\<forall>i<length df.
         df_bronze lib now df ! i = bronze_of lib now (df ! i)
       \<and> region_code (df_bronze lib now df ! i) = respondent (df ! i)
       \<and> region_name (df_bronze lib now df ! i) = respondent_name (df ! i)
       \<and> data_type (df_bronze lib now df ! i) = type' (df ! i)
       \<and> data_type_name (df_bronze lib now df ! i) = type_name (df ! i)
       \<and> units (df_bronze lib now df ! i) = value_units (df ! i)
       \<and> date (df_bronze lib now df ! i) = date_col lib (df ! i)
       \<and> demand_mwh (df_bronze lib now df ! i) = demand_mwh_col lib (df ! i)
       \<and> ingested_at (df_bronze lib now df ! i) = now
       \<and> source (df_bronze lib now df ! i) = ''eia_api'')
   \<and> df_bronze lib now (xs @ ys) = df_bronze lib now xs @ df_bronze lib now ys"
  by (simp add: df_bronze_def bronze_of_def)

theorem df_bronze_rowwise_witness:
  "length (df_bronze spark_ref (0::nat)
     [\<lparr>period = Some ''20240115'', respondent = Some ''PJM'', respondent_name = Some ''PJM Interconnection'',
       type' = Some ''D'', type_name = Some ''Demand'', value' = Some ''5'',
       value_units = Some ''megawatthours''\<rparr>,
      \<lparr>period = Some ''20240115'', respondent = Some ''PJM'', respondent_name = Some ''PJM Interconnection'',
       type' = Some ''D'', type_name = Some ''Demand'', value' = Some ''5'',
       value_units = Some ''megawatthours''\<rparr>]) = 2
   \<and> region_code (df_bronze spark_ref (0::nat)
     [\<lparr>period = Some ''20240115'', respondent = Some ''PJM'', respondent_name = Some ''PJM Interconnection'',
       type' = Some ''D'', type_name = Some ''Demand'', value' = Some ''5'',
       value_units = Some ''megawatthours''\<rparr>,
      \<lparr>period = Some ''20240115'', respondent = Some ''PJM'', respondent_name = Some ''PJM Interconnection'',
       type' = Some ''D'', type_name = Some ''Demand'', value' = Some ''5'',
       value_units = Some ''megawatthours''\<rparr>] ! 1) = Some ''PJM''"
proof -
  let ?r = "\<lparr>period = Some ''20240115'', respondent = Some ''PJM'',
       respondent_name = Some ''PJM Interconnection'',
       type' = Some ''D'', type_name = Some ''Demand'', value' = Some ''5'',
       value_units = Some ''megawatthours''\<rparr>"
  from df_bronze_rowwise[of spark_ref "0::nat" "[?r, ?r]"]
  have "length (df_bronze spark_ref (0::nat) [?r, ?r]) = length [?r, ?r]"
    and "\<forall>i<length [?r, ?r].
           region_code (df_bronze spark_ref (0::nat) [?r, ?r] ! i) = respondent ([?r, ?r] ! i)"
    by blast+
  then show ?thesis by simp
qed

end
